theory Spec2Isabelle
  imports Complex_Main "HOL-Library.Multiset"
begin

section \<open>Data model (types.ts)\<close>

text \<open>
  The enum \<open>ProcessingStatus\<close> and the interface \<open>ImageFile\<close> of \<open>types.ts\<close>.
  A browser \<open>File\<close> and a \<open>Blob\<close> are reduced to the parts the queue reads: name,
  MIME type and content. An optional field of the interface is an \<open>option\<close>;
  \<open>undefined\<close> is \<open>None\<close>. The field \<open>id\<close> is written \<open>id'\<close>.
\<close>

datatype ProcessingStatus = IDLE | PENDING | PROCESSING | COMPLETED | FAILED

record js_blob =
  blobType :: string
  blobBytes :: "nat list"

record js_file =
  fileName :: string
  fileType :: string
  fileBytes :: "nat list"

record ImageFile =
  id' :: string
  "file" :: js_file
  previewUrl :: string
  status :: ProcessingStatus
  secondaryFile :: "js_file option"
  secondaryPreviewUrl :: "string option"
  resultUrl :: "string option"
  resultBlob :: "js_blob option"
  error :: "string option"
  retryTimestamp :: "int option"
  customPrompt :: "string option"
  isRetry :: "bool option"
  lastActivityTimestamp :: int

text \<open>A thrown JavaScript \<open>Error\<close>; only its \<open>message\<close> is ever read.\<close>

datatype js_error = Error (message: string)

section \<open>JavaScript library functions used by the queue\<close>

text \<open>
  An optional string is falsy when it is \<open>undefined\<close>, \<open>null\<close> or \<open>""\<close>; the tests
  \<open>if (fileItem.customPrompt)\<close> and \<open>if (!currentApiKey)\<close> are written out as a case
  distinction with a test for the empty string.
\<close>

text \<open>\<open>String.prototype.startsWith\<close>.\<close>

fun startsWith :: "string \<Rightarrow> string \<Rightarrow> bool" where
  "startsWith s [] = True"
| "startsWith [] (p # ps) = False"
| "startsWith (c # cs) (p # ps) = (c = p \<and> startsWith cs ps)"

text \<open>
  \<open>name.replace(/\.[^/.]+$/, "")\<close>: the leftmost position where a dot is followed,
  up to the end of the string, by one or more characters other than \<open>/\<close> and \<open>.\<close>;
  the match is deleted. Without a match the name is returned as it is.
\<close>

fun stripExtension :: "string \<Rightarrow> string" where
  "stripExtension [] = []"
| "stripExtension (c # cs) =
     (if c = CHR ''.'' \<and> cs \<noteq> [] \<and> list_all (\<lambda>d. d \<noteq> CHR ''/'' \<and> d \<noteq> CHR ''.'') cs
      then [] else c # stripExtension cs)"

text \<open>
  \<open>String.prototype.replace\<close> with a string pattern: only the first occurrence is
  replaced, and the replacement text is expanded by \<open>GetSubstitution\<close>, which reads
  \<open>$$\<close> as a dollar sign, \<open>$&\<close> as the matched text, \<open>$`\<close> as the text before the
  match and \<open>$'\<close> as the text after it. With a string pattern there are no capture
  groups, so any other \<open>$\<close> stays as it is.
\<close>

fun splitAtFirst :: "string \<Rightarrow> string \<Rightarrow> (string \<times> string) option" where
  "splitAtFirst pat [] = (if pat = [] then Some ([], []) else None)"
| "splitAtFirst pat (c # cs) =
     (if startsWith (c # cs) pat then Some ([], drop (length pat) (c # cs))
      else (case splitAtFirst pat cs of
              None \<Rightarrow> None
            | Some (preceding, following) \<Rightarrow> Some (c # preceding, following)))"

fun getSubstitution :: "string \<Rightarrow> string \<Rightarrow> string \<Rightarrow> string \<Rightarrow> string" where
  "getSubstitution m preceding following [] = []"
| "getSubstitution m preceding following [c] = [c]"
| "getSubstitution m preceding following (c # d # r) =
     (if c = CHR ''$'' \<and> d = CHR ''$'' then CHR ''$'' # getSubstitution m preceding following r
      else if c = CHR ''$'' \<and> d = CHR ''&'' then m @ getSubstitution m preceding following r
      else if c = CHR ''$'' \<and> d = CHR 0x60 then preceding @ getSubstitution m preceding following r
      else if c = CHR ''$'' \<and> d = CHR 0x27 then following @ getSubstitution m preceding following r
      else c # getSubstitution m preceding following (d # r))"

definition js_replace :: "string \<Rightarrow> string \<Rightarrow> string \<Rightarrow> string" where
  "js_replace s pat repl =
     (case splitAtFirst pat s of
        None \<Rightarrow> s
      | Some (preceding, following) \<Rightarrow> preceding @ getSubstitution pat preceding following repl @ following)"

text \<open>A number inside a template literal: its decimal digits, with a sign when negative.\<close>

definition digitChar :: "nat \<Rightarrow> char" where
  "digitChar d = char_of (48 + d)"

function showNat :: "nat \<Rightarrow> string" where
  "showNat n = (if n < 10 then [digitChar n] else showNat (n div 10) @ [digitChar (n mod 10)])"
  by pat_completeness auto
termination
  by (relation "measure (\<lambda>n. n)") auto

declare showNat.simps [simp del]

definition showInt :: "int \<Rightarrow> string" where
  "showInt i = (if i < 0 then CHR ''-'' # showNat (nat (- i)) else showNat (nat i))"

text \<open>
  \<open>Array.prototype.sort\<close> with a comparator. The sort is stable: of two elements for
  which the comparator gives zero, the one that came first in the input comes first in
  the result. It is written as an insertion sort that inserts from the right end on.
\<close>

fun js_insert :: "('a \<Rightarrow> 'a \<Rightarrow> int) \<Rightarrow> 'a \<Rightarrow> 'a list \<Rightarrow> 'a list" where
  "js_insert cmp x [] = [x]"
| "js_insert cmp x (y # ys) = (if cmp x y \<le> 0 then x # y # ys else y # js_insert cmp x ys)"

fun js_sort :: "('a \<Rightarrow> 'a \<Rightarrow> int) \<Rightarrow> 'a list \<Rightarrow> 'a list" where
  "js_sort cmp [] = []"
| "js_sort cmp (x # xs) = js_insert cmp x (js_sort cmp xs)"

section \<open>Settings read through refs (App.tsx)\<close>

text \<open>
  The current values of \<open>apiKeyRef\<close>, \<open>customPromptTemplateRef\<close>, \<open>temperatureRef\<close>,
  \<open>autoRetryRef\<close>, \<open>enableDelayRef\<close>, \<open>enableConcurrencyRef\<close> and \<open>maxConcurrencyRef\<close>.
\<close>

record settings =
  apiKey :: "string option"
  customPromptTemplate :: string
  temperature :: real
  autoRetry :: bool
  enableDelay :: bool
  enableConcurrency :: bool
  maxConcurrency :: int

section \<open>The worker: processSingleFile and processFileBackground\<close>

text \<open>
  The prompt of \<open>processSingleFile\<close>: the override of the task when it is truthy
  (present and not empty), otherwise the template with \<open>{filename}\<close> replaced by the
  file name without extension.
\<close>

definition templatedPrompt :: "string \<Rightarrow> ImageFile \<Rightarrow> string" where
  "templatedPrompt template fileItem =
     (let fileNameWithoutExt = stripExtension (fileName (file fileItem))
      in js_replace template ''{filename}'' fileNameWithoutExt)"

definition finalPrompt :: "string \<Rightarrow> ImageFile \<Rightarrow> string" where
  "finalPrompt template fileItem =
     (case customPrompt fileItem of
        Some p \<Rightarrow> (if p \<noteq> [] then p else templatedPrompt template fileItem)
      | None \<Rightarrow> templatedPrompt template fileItem)"

definition filesToProcess :: "ImageFile \<Rightarrow> js_file list" where
  "filesToProcess fileItem =
     (case secondaryFile fileItem of None \<Rightarrow> [file fileItem] | Some s \<Rightarrow> [file fileItem, s])"

text \<open>
  The Transform Service is a parameter. One attempt is everything awaited inside the
  \<open>try\<close> block: the call of \<open>translateImageWithGemini\<close> with the inputs, the prompt,
  the temperature and the key, and the conversion of the returned data URL into a blob.
  \<open>translate inputs prompt temp key n\<close> is the outcome of the \<open>n\<close>-th attempt: \<open>Inl\<close> what
  was thrown, or \<open>Inr\<close> the data URL with its blob.

  \<open>stopAt n\<close> is the value of \<open>abortControllerRef.current\<close> when the worker reads it at
  the top of the loop with \<open>attempts = n\<close>. The second read, inside \<open>catch\<close>, only decides
  whether the worker sleeps before the next iteration.
\<close>

type_synonym transform =
  "js_file list \<Rightarrow> string \<Rightarrow> real \<Rightarrow> string \<Rightarrow> nat \<Rightarrow> js_error + (string \<times> js_blob)"

definition thrownAfterLoop :: "js_error option \<Rightarrow> js_error" where
  "thrownAfterLoop lastError =
     (case lastError of Some e \<Rightarrow> e | None \<Rightarrow> Error ''Processing failed'')"

text \<open>
  The \<open>while (attempts < maxAttempts)\<close> loop. The result is what the function returns or
  throws, together with the final value of \<open>attempts\<close>.
\<close>

function attemptLoop ::
  "(nat \<Rightarrow> js_error + (string \<times> js_blob)) \<Rightarrow> (nat \<Rightarrow> bool) \<Rightarrow> ImageFile \<Rightarrow> nat \<Rightarrow> nat
     \<Rightarrow> js_error option \<Rightarrow> (js_error + ImageFile) \<times> nat" where
  "attemptLoop call stopAt fileItem maxAttempts attempts lastError =
     (if attempts < maxAttempts then
        (if stopAt attempts then (Inl (thrownAfterLoop lastError), attempts)
         else (case call (attempts + 1) of
                 Inr (resultBase64, blob) \<Rightarrow>
                   (Inr (fileItem\<lparr>status := COMPLETED, resultUrl := Some resultBase64,
                                   resultBlob := Some blob, error := None\<rparr>),
                    attempts + 1)
               | Inl err \<Rightarrow>
                   attemptLoop call stopAt fileItem maxAttempts (attempts + 1) (Some err)))
      else (Inl (thrownAfterLoop lastError), attempts))"
  by pat_completeness auto
termination
  by (relation "measure (\<lambda>(call, stopAt, fileItem, maxAttempts, attempts, lastError).
                            maxAttempts - attempts)") auto

declare attemptLoop.simps [simp del]

definition processSingleFile ::
  "settings \<Rightarrow> transform \<Rightarrow> (nat \<Rightarrow> bool) \<Rightarrow> ImageFile \<Rightarrow> (js_error + ImageFile) \<times> nat" where
  "processSingleFile cfg translate stopAt fileItem =
     (let currentTemp = temperature cfg;
          currentAutoRetry = autoRetry cfg
      in case apiKey cfg of
           None \<Rightarrow> (Inl (Error ''API Key is missing''), 0)
         | Some currentApiKey \<Rightarrow>
             (if currentApiKey = [] then (Inl (Error ''API Key is missing''), 0)
              else (let prompt = finalPrompt (customPromptTemplate cfg) fileItem;
                        maxAttempts = (if currentAutoRetry then 3 else 1)
                    in attemptLoop
                         (translate (filesToProcess fileItem) prompt currentTemp currentApiKey)
                         stopAt fileItem maxAttempts 0 None)))"

text \<open>
  \<open>processFileBackground\<close>: the updater that the wrapper hands to \<open>setFiles\<close>, applied
  to the list. On success every record with the id of the returned item is replaced by
  the returned item; on failure every record with the id of the dispatched item gets the
  status \<open>FAILED\<close> and the message of the error, or \<open>Unknown error\<close> when the message is
  empty. Nothing else is assigned.
\<close>

definition errorText :: "js_error \<Rightarrow> string" where
  "errorText e = (if message e \<noteq> [] then message e else ''Unknown error'')"

definition processFileBackground ::
  "settings \<Rightarrow> transform \<Rightarrow> (nat \<Rightarrow> bool) \<Rightarrow> ImageFile \<Rightarrow> ImageFile list \<Rightarrow> ImageFile list" where
  "processFileBackground cfg translate stopAt fileItem prev =
     (case fst (processSingleFile cfg translate stopAt fileItem) of
        Inr updatedFile \<Rightarrow> map (\<lambda>f. if id' f = id' updatedFile then updatedFile else f) prev
      | Inl err \<Rightarrow>
          map (\<lambda>f. if id' f = id' fileItem
                    then f\<lparr>status := FAILED, error := Some (errorText err)\<rparr> else f) prev)"

section \<open>Application state\<close>

text \<open>
  \<open>files\<close> is the React state after every updater handed to \<open>setFiles\<close> so far.
  \<open>filesRef\<close> is \<open>filesRef.current\<close>, which the effect \<open>filesRef.current = files\<close>
  refreshes after a render; it is also the list that the closures of the last render see.
  \<open>isProcessing\<close> is the React state after every call of \<open>setIsProcessing\<close> so far, and
  \<open>renderedIsProcessing\<close> is the constant \<open>isProcessing\<close> of the last render: the value
  that the handlers of that render, and the \<open>processQueue\<close> they queue, have captured.
  \<open>abortController\<close> is \<open>abortControllerRef.current\<close>. \<open>refs\<close> holds the settings.
  \<open>queuedStarts\<close> lists the callbacks \<open>setTimeout(() => processQueue(), 0)\<close> that have
  not fired yet, oldest first, each by the value of \<open>isProcessing\<close> that its closure has
  captured. \<open>runningLoops\<close> counts the calls of \<open>processQueue\<close> that are inside
  \<open>while (true)\<close>, and \<open>workers\<close> lists the calls of \<open>processFileBackground\<close> that
  have not settled, each with the item it was given and the settings it read when it
  started.
\<close>

record worker =
  wFileItem :: ImageFile
  wSettings :: settings

record app_state =
  files :: "ImageFile list"
  filesRef :: "ImageFile list"
  isProcessing :: bool
  renderedIsProcessing :: bool
  abortController :: bool
  refs :: settings
  queuedStarts :: "bool list"
  runningLoops :: nat
  workers :: "worker list"

definition initialState :: app_state where
  "initialState =
     \<lparr>files = [], filesRef = [], isProcessing = False, renderedIsProcessing = False,
      abortController = False,
      refs = \<lparr>apiKey = None, customPromptTemplate = ''{filename}'', temperature = 1,
              autoRetry = False, enableDelay = False, enableConcurrency = True,
              maxConcurrency = 2\<rparr>,
      queuedStarts = [], runningLoops = 0, workers = []\<rparr>"

section \<open>Lifecycle operations\<close>

text \<open>
  \<open>crypto.randomUUID\<close> and \<open>URL.createObjectURL\<close> belong to the browser. A handler gets
  them as functions of the number of the call inside the handler: \<open>uuid i\<close> and \<open>url i\<close>
  are the results of the \<open>i\<close>-th call. \<open>Date.now()\<close> is the argument \<open>timestamp\<close>.
\<close>

definition newItem ::
  "string \<Rightarrow> js_file \<Rightarrow> string \<Rightarrow> js_file option \<Rightarrow> string option \<Rightarrow> int \<Rightarrow> ImageFile" where
  "newItem i f u sf su timestamp =
     \<lparr>id' = i, file = f, previewUrl = u, status = IDLE, secondaryFile = sf,
      secondaryPreviewUrl = su, resultUrl = None, resultBlob = None, error = None,
      retryTimestamp = None, customPrompt = None, isRetry = Some False,
      lastActivityTimestamp = timestamp\<rparr>"

definition isImage :: "js_file \<Rightarrow> bool" where
  "isImage f = startsWith (fileType f) ''image/''"

definition addFilesToQueue ::
  "int \<Rightarrow> (nat \<Rightarrow> string) \<Rightarrow> (nat \<Rightarrow> string) \<Rightarrow> js_file list \<Rightarrow> ImageFile list \<Rightarrow> ImageFile list" where
  "addFilesToQueue timestamp uuid url incomingFiles prev =
     prev @ map (\<lambda>(i, f). newItem (uuid i) f (url i) None None timestamp)
                (enumerate 0 (filter isImage incomingFiles))"

text \<open>
  The loop \<open>for (i = 0; i < imageFiles.length; i += 2)\<close> of \<open>addDualFilesToQueue\<close>; the
  first argument counts the items pushed so far, the list is \<open>imageFiles\<close> from \<open>i\<close> on.
\<close>

fun dualItems ::
  "nat \<Rightarrow> int \<Rightarrow> (nat \<Rightarrow> string) \<Rightarrow> (nat \<Rightarrow> string) \<Rightarrow> js_file list \<Rightarrow> ImageFile list" where
  "dualItems n timestamp uuid url [] = []"
| "dualItems n timestamp uuid url [single] =
     [newItem (uuid n) single (url (2 * n)) None None timestamp]"
| "dualItems n timestamp uuid url (primary # secondary # rest) =
     newItem (uuid n) primary (url (2 * n)) (Some secondary) (Some (url (2 * n + 1))) timestamp
       # dualItems (Suc n) timestamp uuid url rest"

definition addDualFilesToQueue ::
  "int \<Rightarrow> (nat \<Rightarrow> string) \<Rightarrow> (nat \<Rightarrow> string) \<Rightarrow> js_file list \<Rightarrow> ImageFile list \<Rightarrow> ImageFile list" where
  "addDualFilesToQueue timestamp uuid url incomingFiles prev =
     prev @ dualItems 0 timestamp uuid url (filter isImage incomingFiles)"

text \<open>\<open>handleRemove\<close>; revoking the object URLs does not touch the list.\<close>

definition handleRemove :: "string \<Rightarrow> ImageFile list \<Rightarrow> ImageFile list" where
  "handleRemove i prev = filter (\<lambda>f. id' f \<noteq> i) prev"

definition handleSavePrompt :: "string \<Rightarrow> string \<Rightarrow> ImageFile list \<Rightarrow> ImageFile list" where
  "handleSavePrompt editingId newPrompt prev =
     map (\<lambda>f. if id' f = editingId then f\<lparr>customPrompt := Some newPrompt\<rparr> else f) prev"

definition startProcessing :: "app_state \<Rightarrow> app_state" where
  "startProcessing s =
     (if length (filesRef s) = 0 then s
      else s\<lparr>files := map (\<lambda>f. if status f = IDLE \<or> status f = FAILED
                                then f\<lparr>status := PENDING, error := None\<rparr> else f) (files s),
              queuedStarts := queuedStarts s @ [renderedIsProcessing s]\<rparr>)"

definition regenerated :: "int \<Rightarrow> ImageFile \<Rightarrow> ImageFile" where
  "regenerated now f =
     f\<lparr>status := PENDING, resultUrl := None, resultBlob := None, error := None,
       isRetry := Some True, lastActivityTimestamp := now\<rparr>"

definition handleRegenerate :: "int \<Rightarrow> string \<Rightarrow> app_state \<Rightarrow> app_state" where
  "handleRegenerate now i s =
     s\<lparr>files := map (\<lambda>f. if id' f = i then regenerated now f else f) (files s),
       queuedStarts := queuedStarts s @ [renderedIsProcessing s]\<rparr>"

definition handleUseResultAsInput ::
  "int \<Rightarrow> string \<Rightarrow> string \<Rightarrow> ImageFile \<Rightarrow> app_state \<Rightarrow> app_state" where
  "handleUseResultAsInput timestamp uuid url item s =
     (case resultBlob item of
        None \<Rightarrow> s
      | Some blob \<Rightarrow>
          (let newFileName = ''regen_'' @ showInt timestamp @ ''_'' @ fileName (file item);
               newFile = \<lparr>fileName = newFileName, fileType = blobType blob,
                          fileBytes = blobBytes blob\<rparr>;
               newQueueItem = (newItem uuid newFile url None None timestamp)
                                \<lparr>customPrompt := customPrompt item\<rparr>
           in s\<lparr>files := files s @ [newQueueItem]\<rparr>))"

definition stopProcessing :: "app_state \<Rightarrow> app_state" where
  "stopProcessing s = s\<lparr>abortController := True\<rparr>"

text \<open>\<open>clearAll\<close> tests the \<open>isProcessing\<close> of the render whose button was pressed.\<close>

definition clearAll :: "app_state \<Rightarrow> app_state" where
  "clearAll s = (if renderedIsProcessing s then s else s\<lparr>files := []\<rparr>)"

section \<open>The queue manager: processQueue\<close>

text \<open>
  Entering \<open>processQueue\<close>. The test \<open>if (isProcessing) return\<close> reads the constant of the
  render that built this \<open>processQueue\<close>, given here as \<open>captured\<close>; it is not the current
  state. When the test lets the call through, \<open>setIsProcessing(true)\<close> runs, the stop flag
  is cleared and the call is inside \<open>while (true)\<close>, whether or not another call is
  already there.
\<close>

definition processQueueEnter :: "bool \<Rightarrow> app_state \<Rightarrow> app_state" where
  "processQueueEnter captured s =
     (if captured then s
      else s\<lparr>isProcessing := True, abortController := False,
             runningLoops := Suc (runningLoops s)\<rparr>)"

text \<open>The comparator \<open>(a, b) => b.lastActivityTimestamp - a.lastActivityTimestamp\<close>.\<close>

abbreviation byRecency :: "ImageFile \<Rightarrow> ImageFile \<Rightarrow> int" where
  "byRecency \<equiv> (\<lambda>a b. lastActivityTimestamp b - lastActivityTimestamp a)"

definition pendingFiles :: "ImageFile list \<Rightarrow> ImageFile list" where
  "pendingFiles currentFiles =
     js_sort byRecency (filter (\<lambda>f. status f = PENDING) currentFiles)"

definition processingFiles :: "ImageFile list \<Rightarrow> ImageFile list" where
  "processingFiles currentFiles = filter (\<lambda>f. status f = PROCESSING) currentFiles"

definition MAX_CONCURRENCY :: "settings \<Rightarrow> int" where
  "MAX_CONCURRENCY cfg = (if enableConcurrency cfg then maxConcurrency cfg else 1)"

definition markProcessing :: "string \<Rightarrow> ImageFile list \<Rightarrow> ImageFile list" where
  "markProcessing i prev =
     map (\<lambda>f. if id' f = i then f\<lparr>status := PROCESSING, error := None\<rparr> else f) prev"

text \<open>
  One pass through the body of \<open>while (true)\<close>, from the test of the stop flag to the
  \<open>await\<close> at the end of the pass. Leaving the loop runs \<open>setIsProcessing(false)\<close> and
  the call of \<open>processQueue\<close> is over. A
  dispatch marks the records with the id of \<open>fileToProcess\<close> in \<open>files\<close> and starts
  \<open>processFileBackground(fileToProcess)\<close>, which settles later. The lengths of the waits
  are not part of the model.
\<close>

definition processQueueIteration :: "app_state \<Rightarrow> app_state" where
  "processQueueIteration s =
     (if abortController s
      then s\<lparr>isProcessing := False, runningLoops := runningLoops s - 1\<rparr>
      else (let currentFiles = filesRef s;
                pending = pendingFiles currentFiles;
                processing = processingFiles currentFiles
            in if length pending = 0 \<and> length processing = 0
               then s\<lparr>isProcessing := False, runningLoops := runningLoops s - 1\<rparr>
               else (case pending of
                       fileToProcess # rest \<Rightarrow>
                         (if int (length processing) < MAX_CONCURRENCY (refs s)
                          then s\<lparr>files := markProcessing (id' fileToProcess) (files s),
                                  workers := workers s @
                                    [\<lparr>wFileItem = fileToProcess, wSettings = refs s\<rparr>]\<rparr>
                          else s)
                     | [] \<Rightarrow> s)))"

text \<open>
  The worker at position \<open>k\<close> settles: the updater of \<open>processFileBackground\<close> is applied
  to \<open>files\<close> and the worker is no longer in flight.
\<close>

definition workerSettles :: "nat \<Rightarrow> transform \<Rightarrow> (nat \<Rightarrow> bool) \<Rightarrow> app_state \<Rightarrow> app_state" where
  "workerSettles k translate stopAt s =
     (if k < length (workers s)
      then (let w = workers s ! k
            in s\<lparr>files := processFileBackground (wSettings w) translate stopAt (wFileItem w)
                             (files s),
                  workers := take k (workers s) @ drop (Suc k) (workers s)\<rparr>)
      else s)"

section \<open>Events and runs\<close>

text \<open>
  Everything that can happen: a handler of the user interface, a change of a setting, a
  render with the effect that refreshes \<open>filesRef\<close>, the oldest queued call of
  \<open>processQueue\<close> firing, one pass of a running loop, and a worker settling.
\<close>

datatype event =
    AddFiles int "nat \<Rightarrow> string" "nat \<Rightarrow> string" "js_file list"
  | AddDualFiles int "nat \<Rightarrow> string" "nat \<Rightarrow> string" "js_file list"
  | Remove string
  | SavePrompt string string
  | Start
  | Regenerate int string
  | UseResultAsInput int string string ImageFile
  | Stop
  | ClearAll
  | SetApiKey "string option"
  | SetCustomPromptTemplate string
  | SetTemperature real
  | SetAutoRetry bool
  | SetEnableDelay bool
  | SetEnableConcurrency bool
  | SetMaxConcurrency "int option"
  | Render
  | InvokeProcessQueue
  | LoopIteration
  | WorkerSettles nat transform "nat \<Rightarrow> bool"

text \<open>
  \<open>setMaxConcurrency(Math.max(1, parseInt(e.target.value) || 1))\<close>; \<open>None\<close> is the
  \<open>NaN\<close> of \<open>parseInt\<close>.
\<close>

definition parsedConcurrency :: "int option \<Rightarrow> int" where
  "parsedConcurrency v = max 1 (case v of None \<Rightarrow> 1 | Some n \<Rightarrow> if n = 0 then 1 else n)"

fun step :: "event \<Rightarrow> app_state \<Rightarrow> app_state" where
  "step (AddFiles timestamp uuid url incoming) s =
     s\<lparr>files := addFilesToQueue timestamp uuid url incoming (files s)\<rparr>"
| "step (AddDualFiles timestamp uuid url incoming) s =
     s\<lparr>files := addDualFilesToQueue timestamp uuid url incoming (files s)\<rparr>"
| "step (Remove i) s = s\<lparr>files := handleRemove i (files s)\<rparr>"
| "step (SavePrompt i newPrompt) s = s\<lparr>files := handleSavePrompt i newPrompt (files s)\<rparr>"
| "step Start s = startProcessing s"
| "step (Regenerate now i) s = handleRegenerate now i s"
| "step (UseResultAsInput timestamp uuid url item) s =
     handleUseResultAsInput timestamp uuid url item s"
| "step Stop s = stopProcessing s"
| "step ClearAll s = clearAll s"
| "step (SetApiKey k) s = s\<lparr>refs := (refs s)\<lparr>apiKey := k\<rparr>\<rparr>"
| "step (SetCustomPromptTemplate t) s = s\<lparr>refs := (refs s)\<lparr>customPromptTemplate := t\<rparr>\<rparr>"
| "step (SetTemperature t) s = s\<lparr>refs := (refs s)\<lparr>temperature := t\<rparr>\<rparr>"
| "step (SetAutoRetry b) s = s\<lparr>refs := (refs s)\<lparr>autoRetry := b\<rparr>\<rparr>"
| "step (SetEnableDelay b) s = s\<lparr>refs := (refs s)\<lparr>enableDelay := b\<rparr>\<rparr>"
| "step (SetEnableConcurrency b) s = s\<lparr>refs := (refs s)\<lparr>enableConcurrency := b\<rparr>\<rparr>"
| "step (SetMaxConcurrency v) s =
     s\<lparr>refs := (refs s)\<lparr>maxConcurrency := parsedConcurrency v\<rparr>\<rparr>"
| "step Render s = s\<lparr>filesRef := files s, renderedIsProcessing := isProcessing s\<rparr>"
| "step InvokeProcessQueue s =
     (case queuedStarts s of
        [] \<Rightarrow> s
      | captured # rest \<Rightarrow> processQueueEnter captured (s\<lparr>queuedStarts := rest\<rparr>))"
| "step LoopIteration s = (if runningLoops s = 0 then s else processQueueIteration s)"
| "step (WorkerSettles k translate stopAt) s = workerSettles k translate stopAt s"

text \<open>
  No handler compares a new id with the ids of the list. An event that creates records
  is called admissible when the ids that \<open>crypto.randomUUID\<close> hands to it differ from
  each other and from the ids of the records in \<open>files\<close> and in \<open>filesRef\<close>, as the
  browser's generator is expected to deliver them.
\<close>

definition freshIds :: "(nat \<Rightarrow> string) \<Rightarrow> nat \<Rightarrow> ImageFile list \<Rightarrow> bool" where
  "freshIds uuid n fs =
     (distinct (map uuid [0..<n]) \<and> list_all (\<lambda>i. uuid i \<notin> set (map id' fs)) [0..<n])"

fun admissible :: "event \<Rightarrow> app_state \<Rightarrow> bool" where
  "admissible (AddFiles timestamp uuid url incoming) s =
     freshIds uuid (length (filter isImage incoming)) (files s @ filesRef s)"
| "admissible (AddDualFiles timestamp uuid url incoming) s =
     freshIds uuid ((length (filter isImage incoming) + 1) div 2) (files s @ filesRef s)"
| "admissible (UseResultAsInput timestamp uuid url item) s =
     (uuid \<notin> set (map id' (files s @ filesRef s)))"
| "admissible e s = True"

fun run :: "event list \<Rightarrow> app_state \<Rightarrow> app_state" where
  "run [] s = s"
| "run (e # es) s = run es (step e s)"

fun admissibleRun :: "event list \<Rightarrow> app_state \<Rightarrow> bool" where
  "admissibleRun [] s = True"
| "admissibleRun (e # es) s = (admissible e s \<and> admissibleRun es (step e s))"

text \<open>A property holds throughout a run: in the first state and after every event.\<close>

fun throughout :: "(app_state \<Rightarrow> bool) \<Rightarrow> event list \<Rightarrow> app_state \<Rightarrow> bool" where
  "throughout P [] s = P s"
| "throughout P (e # es) s = (P s \<and> throughout P es (step e s))"

section \<open>Notions used to state the properties\<close>

text \<open>
  The events of the scheduler and of the workers themselves, as opposed to the handlers
  of the user interface and the settings.
\<close>

fun schedulerEvent :: "event \<Rightarrow> bool" where
  "schedulerEvent Render = True"
| "schedulerEvent InvokeProcessQueue = True"
| "schedulerEvent LoopIteration = True"
| "schedulerEvent (WorkerSettles k translate stopAt) = True"
| "schedulerEvent e = False"

text \<open>The ids of the records whose status is \<open>PROCESSING\<close>.\<close>

definition processingIds :: "ImageFile list \<Rightarrow> string set" where
  "processingIds fs = set (map id' (processingFiles fs))"

text \<open>The record the loop would pick from a snapshot has the given id.\<close>

definition headPendingIs :: "ImageFile list \<Rightarrow> string \<Rightarrow> bool" where
  "headPendingIs fs i = (case pendingFiles fs of [] \<Rightarrow> False | p # rest \<Rightarrow> id' p = i)"

text \<open>
  The invariant behind the ceiling of one: ids are distinct, all records in process
  share one id, and a record in process is either seen in process by the snapshot or is
  the one the loop would pick from the snapshot.
\<close>

definition schedulerInv :: "app_state \<Rightarrow> bool" where
  "schedulerInv s =
     (distinct (map id' (files s))
      \<and> list_all (\<lambda>i. list_all (\<lambda>j. i = j) (map id' (processingFiles (files s))))
           (map id' (processingFiles (files s)))
      \<and> list_all (\<lambda>i. processingFiles (filesRef s) \<noteq> [] \<or> headPendingIs (filesRef s) i)
           (map id' (processingFiles (files s))))"

text \<open>A completed record carries its result and no error.\<close>

definition completedOk :: "ImageFile \<Rightarrow> bool" where
  "completedOk f = (status f \<noteq> COMPLETED \<or>
                     (resultUrl f \<noteq> None \<and> resultBlob f \<noteq> None \<and> error f = None))"


section \<open>Example values\<close>

definition examplePng :: "string \<Rightarrow> js_file" where
  "examplePng n = \<lparr>fileName = n, fileType = ''image/png'', fileBytes = [137, 80, 78, 71]\<rparr>"

text \<open>The blob of the data URL \<open>data:image/png;base64,AAAA\<close>: three zero bytes.\<close>

definition exampleBlob :: js_blob where
  "exampleBlob = \<lparr>blobType = ''image/png'', blobBytes = [0, 0, 0]\<rparr>"

definition alwaysSucceeds :: transform where
  "alwaysSucceeds inputs prompt temp key n = Inr (''data:image/png;base64,AAAA'', exampleBlob)"

definition alwaysFails :: transform where
  "alwaysFails inputs prompt temp key n = Inl (Error ''503 overloaded'')"

definition failsTwice :: transform where
  "failsTwice inputs prompt temp key n =
     (if n < 3 then Inl (Error ''503 overloaded'')
      else Inr (''data:image/png;base64,AAAA'', exampleBlob))"

definition neverStopped :: "nat \<Rightarrow> bool" where
  "neverStopped n = False"

text \<open>Ids \<open>task-x\<close>, \<open>task-xx\<close>, ... and object URLs \<open>blob:u\<close>, \<open>blob:uu\<close>, ...\<close>

definition exampleUuid :: "nat \<Rightarrow> nat \<Rightarrow> string" where
  "exampleUuid base i = ''task-'' @ replicate (Suc (base + i)) (CHR ''x'')"

definition exampleUrl :: "nat \<Rightarrow> string" where
  "exampleUrl i = ''blob:'' @ replicate (Suc i) (CHR ''u'')"

definition exampleSettings :: settings where
  "exampleSettings = (refs initialState)\<lparr>apiKey := Some ''key''\<rparr>"

definition exampleItem :: ImageFile where
  "exampleItem = newItem ''task-x'' (examplePng ''a.png'') ''blob:u'' None None 5"

text \<open>Three files added at the times 5, 1 and 9, then Start, up to the entry of the loop.\<close>

definition threeQueued :: "event list" where
  "threeQueued =
     [SetApiKey (Some ''key''),
      AddFiles 5 (exampleUuid 0) exampleUrl [examplePng ''a.png''],
      AddFiles 1 (exampleUuid 1) exampleUrl [examplePng ''b.png''],
      AddFiles 9 (exampleUuid 2) exampleUrl [examplePng ''c.png''],
      Render, Start, Render, InvokeProcessQueue]"

text \<open>Two files with concurrency switched off, run until the loop has passed twice.\<close>

definition sequentialState :: app_state where
  "sequentialState = initialState\<lparr>refs := (refs initialState)\<lparr>enableConcurrency := False\<rparr>\<rparr>"

definition twoQueued :: "event list" where
  "twoQueued =
     [SetApiKey (Some ''key''),
      AddFiles 5 (exampleUuid 0) exampleUrl [examplePng ''a.png'', examplePng ''b.png''],
      Render, Start, Render, InvokeProcessQueue]"

definition sequentialTrace :: "event list" where
  "sequentialTrace = twoQueued @ [LoopIteration, Render, LoopIteration, Render]"

text \<open>One file taken to \<open>COMPLETED\<close>.\<close>

definition completedTrace :: "event list" where
  "completedTrace =
     [SetApiKey (Some ''key''),
      AddFiles 5 (exampleUuid 0) exampleUrl [examplePng ''a.png''],
      Render, Start, Render, InvokeProcessQueue, LoopIteration,
      WorkerSettles 0 alwaysSucceeds neverStopped, Render]"

text \<open>Two files, the first dispatched and its worker still in flight.\<close>

definition inFlightTrace :: "event list" where
  "inFlightTrace = twoQueued @ [LoopIteration, Render]"

text \<open>
  One file is dispatched, regenerated while its worker is in flight (the call of
  \<open>processQueue\<close> that Regenerate queues has captured \<open>isProcessing = true\<close> and returns
  at once) and dispatched a second time by the running loop; the first worker succeeds,
  then the second one fails.
\<close>

definition raceTrace :: "event list" where
  "raceTrace =
     [SetApiKey (Some ''key''),
      AddFiles 5 (exampleUuid 0) exampleUrl [examplePng ''a.png''],
      Render, Start, Render, InvokeProcessQueue, LoopIteration, Render,
      Regenerate 7 ''task-x'', Render, InvokeProcessQueue, LoopIteration,
      WorkerSettles 0 alwaysSucceeds neverStopped,
      WorkerSettles 0 alwaysFails neverStopped]"

text \<open>
  Two files. Start and then Regenerate of the second file are pressed before the first
  queued call of \<open>processQueue\<close> has fired, so both queued calls have captured
  \<open>isProcessing = false\<close>. The first call enters the loop, which dispatches the
  regenerated file; the render that follows shows the Stop button, and Stop is pressed.
\<close>

definition stoppedTrace :: "event list" where
  "stoppedTrace =
     [SetApiKey (Some ''key''),
      AddFiles 5 (exampleUuid 0) exampleUrl [examplePng ''a.png'', examplePng ''b.png''],
      Render, Start, Render, Regenerate 7 ''task-xx'', Render,
      InvokeProcessQueue, LoopIteration, Render, Stop]"

text \<open>
  What the browser still holds after that Stop: the second queued call fires, and a loop
  makes a pass. No handler of the user interface is among these events.
\<close>

definition afterStop :: "event list" where
  "afterStop = [InvokeProcessQueue, LoopIteration]"

text \<open>One file dispatched before any credential is set; its worker settles.\<close>

definition missingKeyTrace :: "event list" where
  "missingKeyTrace =
     [AddFiles 5 (exampleUuid 0) exampleUrl [examplePng ''a.png''],
      Render, Start, Render, InvokeProcessQueue, LoopIteration,
      WorkerSettles 0 alwaysSucceeds neverStopped, Render]"

definition dollarItem :: ImageFile where
  "dollarItem = newItem ''task-x'' (examplePng ''a$$b.png'') ''blob:u'' None None 5"

section \<open>Facts about the library functions\<close>

lemma set_js_insert: "set (js_insert cmp x xs) = insert x (set xs)"
  by (induction xs) auto

lemma set_js_sort: "set (js_sort cmp xs) = set xs"
  by (induction xs) (auto simp: set_js_insert)

lemma length_js_insert: "length (js_insert cmp x xs) = Suc (length xs)"
  by (induction xs) auto

lemma length_js_sort: "length (js_sort cmp xs) = length xs"
  by (induction xs) (auto simp: length_js_insert)

lemma js_insert_descending:
  "sorted_wrt (\<lambda>a b. lastActivityTimestamp b \<le> lastActivityTimestamp a) xs \<Longrightarrow>
   sorted_wrt (\<lambda>a b. lastActivityTimestamp b \<le> lastActivityTimestamp a)
     (js_insert byRecency x xs)"
  by (induction xs) (auto simp: set_js_insert)

lemma js_sort_descending:
  "sorted_wrt (\<lambda>a b. lastActivityTimestamp b \<le> lastActivityTimestamp a)
     (js_sort byRecency xs)"
  by (induction xs) (auto simp: js_insert_descending)

lemma getSubstitution_plain:
  "CHR ''$'' \<notin> set r \<Longrightarrow> getSubstitution m pre post r = r"
  by (induction m pre post r rule: getSubstitution.induct) auto

lemma startsWith_append: "startsWith s p \<Longrightarrow> s = p @ drop (length p) s"
  by (induction s p rule: startsWith.induct) auto

lemma splitAtFirst_sound:
  "splitAtFirst pat s = Some (pre, post) \<Longrightarrow> s = pre @ pat @ post"
proof (induction s arbitrary: pre)
  case Nil
  then show ?case by (simp split: if_splits)
next
  case (Cons c cs)
  show ?case
  proof (cases "startsWith (c # cs) pat")
    case True
    with Cons.prems have "pre = []" "post = drop (length pat) (c # cs)" by simp_all
    with startsWith_append [OF True] show ?thesis by simp
  next
    case False
    with Cons.prems obtain pre' where "splitAtFirst pat cs = Some (pre', post)" "pre = c # pre'"
      by (auto split: option.splits)
    with Cons.IH show ?thesis by simp
  qed
qed

section \<open>Facts about the prompt\<close>

text \<open>
  With an override that is not empty the prompt is the override. Without one, and with
  a file name whose stem has no dollar sign, the prompt is the template with the first
  \<open>{filename}\<close> replaced by the stem.
\<close>

lemma finalPrompt_override:
  "customPrompt fileItem = Some p \<Longrightarrow> p \<noteq> [] \<Longrightarrow> finalPrompt template fileItem = p"
  by (simp add: finalPrompt_def)

lemma finalPrompt_template_plain:
  assumes "customPrompt fileItem = None \<or> customPrompt fileItem = Some []"
    and "CHR ''$'' \<notin> set (stripExtension (fileName (file fileItem)))"
    and "splitAtFirst ''{filename}'' template = Some (pre, post)"
  shows "finalPrompt template fileItem = pre @ stripExtension (fileName (file fileItem)) @ post"
    and "template = pre @ ''{filename}'' @ post"
  using assms splitAtFirst_sound [OF assms(3)]
  by (auto simp: finalPrompt_def templatedPrompt_def js_replace_def getSubstitution_plain)

section \<open>Facts about the worker\<close>

lemma attemptLoop_fail_step:
  "attempts < maxAttempts \<Longrightarrow> \<not> stopAt attempts \<Longrightarrow> call (Suc attempts) = Inl e \<Longrightarrow>
   attemptLoop call stopAt fileItem maxAttempts attempts lastError =
     attemptLoop call stopAt fileItem maxAttempts (Suc attempts) (Some e)"
  by (subst attemptLoop.simps) simp

lemma attemptLoop_success_step:
  "attempts < maxAttempts \<Longrightarrow> \<not> stopAt attempts \<Longrightarrow> call (Suc attempts) = Inr (url, blob) \<Longrightarrow>
   attemptLoop call stopAt fileItem maxAttempts attempts lastError =
     (Inr (fileItem\<lparr>status := COMPLETED, resultUrl := Some url,
                     resultBlob := Some blob, error := None\<rparr>), Suc attempts)"
  by (subst attemptLoop.simps) simp

lemma attemptLoop_exhausted:
  "\<not> attempts < maxAttempts \<Longrightarrow>
   attemptLoop call stopAt fileItem maxAttempts attempts lastError =
     (Inl (thrownAfterLoop lastError), attempts)"
  by (subst attemptLoop.simps) simp

lemma attemptLoop_succeeds_third:
  assumes "\<not> stopAt 0" "\<not> stopAt 1" "\<not> stopAt 2"
    and "call 1 = Inl e1" "call 2 = Inl e2" "call 3 = Inr (url, blob)"
  shows "attemptLoop call stopAt fileItem 3 0 None =
           (Inr (fileItem\<lparr>status := COMPLETED, resultUrl := Some url,
                           resultBlob := Some blob, error := None\<rparr>), 3)"
proof -
  have "attemptLoop call stopAt fileItem 3 0 None =
          attemptLoop call stopAt fileItem 3 (Suc 0) (Some e1)"
    using assms by (intro attemptLoop_fail_step) simp_all
  also have "\<dots> = attemptLoop call stopAt fileItem 3 (Suc (Suc 0)) (Some e2)"
    using assms by (intro attemptLoop_fail_step) (simp_all add: numeral_2_eq_2)
  also have "\<dots> = (Inr (fileItem\<lparr>status := COMPLETED, resultUrl := Some url,
                           resultBlob := Some blob, error := None\<rparr>), Suc (Suc (Suc 0)))"
    using assms by (intro attemptLoop_success_step) (simp_all add: numeral_2_eq_2 numeral_3_eq_3)
  finally show ?thesis by (simp add: numeral_3_eq_3)
qed

lemma attemptLoop_single_failure:
  assumes "\<not> stopAt 0" and "call 1 = Inl e1"
  shows "attemptLoop call stopAt fileItem 1 0 None = (Inl e1, 1)"
proof -
  have "attemptLoop call stopAt fileItem 1 0 None =
          attemptLoop call stopAt fileItem 1 (Suc 0) (Some e1)"
    using assms by (intro attemptLoop_fail_step) simp_all
  also have "\<dots> = (Inl (thrownAfterLoop (Some e1)), Suc 0)"
    by (intro attemptLoop_exhausted) simp
  finally show ?thesis by (simp add: thrownAfterLoop_def)
qed

lemma attemptLoop_three_failures:
  assumes "\<not> stopAt 0" "\<not> stopAt 1" "\<not> stopAt 2"
    and "call 1 = Inl e1" "call 2 = Inl e2" "call 3 = Inl e3"
  shows "attemptLoop call stopAt fileItem 3 0 None = (Inl e3, 3)"
proof -
  have "attemptLoop call stopAt fileItem 3 0 None =
          attemptLoop call stopAt fileItem 3 (Suc 0) (Some e1)"
    using assms by (intro attemptLoop_fail_step) simp_all
  also have "\<dots> = attemptLoop call stopAt fileItem 3 (Suc (Suc 0)) (Some e2)"
    using assms by (intro attemptLoop_fail_step) (simp_all add: numeral_2_eq_2)
  also have "\<dots> = attemptLoop call stopAt fileItem 3 (Suc (Suc (Suc 0))) (Some e3)"
    using assms by (intro attemptLoop_fail_step) (simp_all add: numeral_2_eq_2 numeral_3_eq_3)
  also have "\<dots> = (Inl (thrownAfterLoop (Some e3)), Suc (Suc (Suc 0)))"
    by (intro attemptLoop_exhausted) simp
  finally show ?thesis by (simp add: thrownAfterLoop_def numeral_3_eq_3)
qed

text \<open>Whatever the loop returns is the dispatched item, completed.\<close>

lemma attemptLoop_returns:
  "attemptLoop call stopAt fileItem maxAttempts attempts lastError = (Inr u, n) \<Longrightarrow>
   \<exists>url blob. u = fileItem\<lparr>status := COMPLETED, resultUrl := Some url,
                             resultBlob := Some blob, error := None\<rparr>"
proof (induction call stopAt fileItem maxAttempts attempts lastError
       rule: attemptLoop.induct)
  case (1 call stopAt fileItem maxAttempts attempts lastError)
  show ?case
  proof (cases "attempts < maxAttempts \<and> \<not> stopAt attempts")
    case False
    with "1.prems" show ?thesis
      by (subst (asm) attemptLoop.simps) (auto split: if_splits)
  next
    case True
    show ?thesis
    proof (cases "call (attempts + 1)")
      case (Inl err)
      with True "1.prems" have
        "attemptLoop call stopAt fileItem maxAttempts (attempts + 1) (Some err) = (Inr u, n)"
        by (subst (asm) attemptLoop.simps) simp
      with "1.IH" True Inl show ?thesis by blast
    next
      case (Inr r)
      with True "1.prems" show ?thesis
        by (subst (asm) attemptLoop.simps) (auto split: prod.splits)
    qed
  qed
qed

lemma processSingleFile_returns:
  "fst (processSingleFile cfg translate stopAt fileItem) = Inr u \<Longrightarrow>
   \<exists>url blob. u = fileItem\<lparr>status := COMPLETED, resultUrl := Some url,
                             resultBlob := Some blob, error := None\<rparr>"
proof -
  assume a: "fst (processSingleFile cfg translate stopAt fileItem) = Inr u"
  then obtain k where k: "apiKey cfg = Some k" "k \<noteq> []"
    by (auto simp: processSingleFile_def Let_def split: option.splits if_splits)
  let ?call = "translate (filesToProcess fileItem)
                 (finalPrompt (customPromptTemplate cfg) fileItem) (temperature cfg) k"
  from a k obtain n where
    "attemptLoop ?call stopAt fileItem (if autoRetry cfg then 3 else 1) 0 None = (Inr u, n)"
    by (cases "attemptLoop ?call stopAt fileItem (if autoRetry cfg then 3 else 1) 0 None")
       (simp add: processSingleFile_def Let_def)
  then show ?thesis by (rule attemptLoop_returns)
qed

section \<open>Facts about the write-back\<close>

text \<open>The two shapes of the write-back.\<close>

lemma processFileBackground_cases:
  obtains (success) url blob where
      "processFileBackground cfg translate stopAt fileItem prev =
         map (\<lambda>f. if id' f = id' fileItem
                   then fileItem\<lparr>status := COMPLETED, resultUrl := Some url,
                                  resultBlob := Some blob, error := None\<rparr>
                   else f) prev"
      "fst (processSingleFile cfg translate stopAt fileItem) =
         Inr (fileItem\<lparr>status := COMPLETED, resultUrl := Some url,
                         resultBlob := Some blob, error := None\<rparr>)"
    | (failure) err where
      "processFileBackground cfg translate stopAt fileItem prev =
         map (\<lambda>f. if id' f = id' fileItem
                   then f\<lparr>status := FAILED, error := Some (errorText err)\<rparr> else f) prev"
      "fst (processSingleFile cfg translate stopAt fileItem) = Inl err"
proof (cases "fst (processSingleFile cfg translate stopAt fileItem)")
  case (Inl err)
  then show ?thesis by (intro failure) (simp_all add: processFileBackground_def)
next
  case (Inr u)
  from processSingleFile_returns [OF Inr] obtain url blob where
    u: "u = fileItem\<lparr>status := COMPLETED, resultUrl := Some url,
                      resultBlob := Some blob, error := None\<rparr>" by blast
  with Inr show ?thesis by (intro success) (simp_all add: processFileBackground_def)
qed

lemma processFileBackground_ids:
  "map id' (processFileBackground cfg translate stopAt fileItem prev) = map id' prev"
  by (rule processFileBackground_cases [of cfg translate stopAt fileItem prev]) simp_all

lemma replace_absent:
  "i \<notin> set (map id' prev) \<Longrightarrow> map (\<lambda>f. if id' f = i then g f else f) prev = prev"
  by (intro map_idI) auto

lemma processFileBackground_absent:
  "id' fileItem \<notin> set (map id' prev) \<Longrightarrow>
   processFileBackground cfg translate stopAt fileItem prev = prev"
proof -
  assume absent: "id' fileItem \<notin> set (map id' prev)"
  show ?thesis
  proof (rule processFileBackground_cases [of cfg translate stopAt fileItem prev])
    fix url blob
    assume "processFileBackground cfg translate stopAt fileItem prev =
         map (\<lambda>f. if id' f = id' fileItem
                   then fileItem\<lparr>status := COMPLETED, resultUrl := Some url,
                                  resultBlob := Some blob, error := None\<rparr>
                   else f) prev"
    then show ?thesis
      using replace_absent [OF absent,
          of "\<lambda>f. fileItem\<lparr>status := COMPLETED, resultUrl := Some url,
                             resultBlob := Some blob, error := None\<rparr>"]
      by simp
  next
    fix err
    assume "processFileBackground cfg translate stopAt fileItem prev =
         map (\<lambda>f. if id' f = id' fileItem
                   then f\<lparr>status := FAILED, error := Some (errorText err)\<rparr> else f) prev"
    then show ?thesis
      using replace_absent [OF absent,
          of "\<lambda>f. f\<lparr>status := FAILED, error := Some (errorText err)\<rparr>"]
      by simp
  qed
qed

lemma markProcessing_ids: "map id' (markProcessing i prev) = map id' prev"
  by (simp add: markProcessing_def)

lemma processQueueIteration_ids:
  "map id' (files (processQueueIteration s)) = map id' (files s)"
  by (simp add: processQueueIteration_def Let_def markProcessing_ids split: list.splits)

lemma schedulerEvent_ids:
  "schedulerEvent e \<Longrightarrow> map id' (files (step e s)) = map id' (files s)"
  by (cases e)
     (simp_all add: processQueueIteration_ids workerSettles_def Let_def
        processFileBackground_ids processQueueEnter_def split: list.splits)

lemma schedulerRun_ids:
  "list_all schedulerEvent es \<Longrightarrow> map id' (files (run es s)) = map id' (files s)"
  by (induction es arbitrary: s) (simp_all add: schedulerEvent_ids)

section \<open>Facts about the queue manager\<close>

lemma pendingFiles_set:
  "set (pendingFiles fs) = {f \<in> set fs. status f = PENDING}"
  by (auto simp: pendingFiles_def set_js_sort)

lemma pendingFiles_head:
  assumes "pendingFiles fs = p # rest"
  shows "p \<in> set fs" "status p = PENDING"
    "\<forall>g \<in> set fs. status g = PENDING \<longrightarrow> lastActivityTimestamp g \<le> lastActivityTimestamp p"
proof -
  have "p \<in> set (pendingFiles fs)" using assms by simp
  then show "p \<in> set fs" "status p = PENDING" by (simp_all add: pendingFiles_set)
  have "sorted_wrt (\<lambda>a b. lastActivityTimestamp b \<le> lastActivityTimestamp a) (p # rest)"
    using js_sort_descending [of "filter (\<lambda>f. status f = PENDING) fs"] assms
    by (simp add: pendingFiles_def)
  then have "\<forall>g \<in> set (p # rest). lastActivityTimestamp g \<le> lastActivityTimestamp p"
    by auto
  then show "\<forall>g \<in> set fs. status g = PENDING \<longrightarrow>
               lastActivityTimestamp g \<le> lastActivityTimestamp p"
    using pendingFiles_set [of fs] assms by auto
qed

lemma pendingFiles_empty: "pendingFiles fs = [] \<longleftrightarrow> (\<forall>f \<in> set fs. status f \<noteq> PENDING)"
  unfolding set_empty [symmetric] pendingFiles_set by auto

text \<open>What one pass of the loop does, case by case.\<close>

lemma processQueueIteration_cases:
  obtains (stopped) "abortController s"
      "processQueueIteration s = s\<lparr>isProcessing := False, runningLoops := runningLoops s - 1\<rparr>"
  | (finished) "\<not> abortController s" "pendingFiles (filesRef s) = []"
      "processingFiles (filesRef s) = []"
      "processQueueIteration s = s\<lparr>isProcessing := False, runningLoops := runningLoops s - 1\<rparr>"
  | (dispatch) fileToProcess rest where "\<not> abortController s"
      "pendingFiles (filesRef s) = fileToProcess # rest"
      "int (length (processingFiles (filesRef s))) < MAX_CONCURRENCY (refs s)"
      "processQueueIteration s =
         s\<lparr>files := markProcessing (id' fileToProcess) (files s),
           workers := workers s @ [\<lparr>wFileItem = fileToProcess, wSettings = refs s\<rparr>]\<rparr>"
  | (wait) "\<not> abortController s" "processQueueIteration s = s"
      "pendingFiles (filesRef s) = [] \<or>
       \<not> int (length (processingFiles (filesRef s))) < MAX_CONCURRENCY (refs s)"
proof (cases "abortController s")
  case True
  then show ?thesis by (intro stopped) (simp_all add: processQueueIteration_def)
next
  case False
  show ?thesis
  proof (cases "pendingFiles (filesRef s)")
    case Nil
    show ?thesis
    proof (cases "processingFiles (filesRef s) = []")
      case True
      with False Nil show ?thesis by (intro finished) (simp_all add: processQueueIteration_def)
    next
      case nonempty: False
      with False Nil show ?thesis by (intro wait) (simp_all add: processQueueIteration_def)
    qed
  next
    case (Cons p rest)
    show ?thesis
    proof (cases "int (length (processingFiles (filesRef s))) < MAX_CONCURRENCY (refs s)")
      case True
      with False Cons show ?thesis
        by (intro dispatch [of p rest]) (simp_all add: processQueueIteration_def)
    next
      case full: False
      with False Cons show ?thesis by (intro wait) (simp_all add: processQueueIteration_def)
    qed
  qed
qed

section \<open>Invariants of runs\<close>

lemma schedulerInv_iff:
  "schedulerInv s \<longleftrightarrow>
     distinct (map id' (files s))
     \<and> (\<forall>i \<in> processingIds (files s). \<forall>j \<in> processingIds (files s). i = j)
     \<and> (\<forall>i \<in> processingIds (files s).
           processingFiles (filesRef s) \<noteq> [] \<or> headPendingIs (filesRef s) i)"
  by (simp add: schedulerInv_def processingIds_def list_all_iff)

subsection \<open>Ids in process\<close>

lemma processingIds_mem:
  "i \<in> processingIds fs \<longleftrightarrow> (\<exists>f \<in> set fs. status f = PROCESSING \<and> id' f = i)"
  by (auto simp: processingIds_def processingFiles_def)

lemma processingIds_map:
  assumes "\<And>f. f \<in> set fs \<Longrightarrow> status (g f) = PROCESSING \<Longrightarrow>
             status f = PROCESSING \<and> id' (g f) = id' f"
  shows "processingIds (map g fs) \<subseteq> processingIds fs"
  using assms by (fastforce simp: processingIds_mem)

lemma processingIds_filter: "processingIds (filter Q fs) \<subseteq> processingIds fs"
  by (auto simp: processingIds_mem)

lemma processingIds_append:
  "processingIds (fs @ gs) = processingIds fs \<union> processingIds gs"
  by (auto simp: processingIds_mem)

lemma processingIds_none:
  "(\<And>f. f \<in> set fs \<Longrightarrow> status f \<noteq> PROCESSING) \<Longrightarrow> processingIds fs = {}"
  by (auto simp: processingIds_mem)

lemma processingIds_empty_iff: "processingIds fs = {} \<longleftrightarrow> processingFiles fs = []"
  by (simp add: processingIds_def)

lemma status_newItem [simp]: "status (newItem i f u sf su t) = IDLE"
  by (simp add: newItem_def)

lemma id_newItem [simp]: "id' (newItem i f u sf su t) = i"
  by (simp add: newItem_def)

lemma dualItems_status: "f \<in> set (dualItems n t uuid url xs) \<Longrightarrow> status f = IDLE"
  by (induction n t uuid url xs rule: dualItems.induct) auto

lemma processingIds_addFiles:
  "processingIds (addFilesToQueue t uuid url incoming prev) = processingIds prev"
  by (auto simp: addFilesToQueue_def processingIds_append processingIds_mem)

lemma processingIds_addDual:
  "processingIds (addDualFilesToQueue t uuid url incoming prev) = processingIds prev"
proof -
  have "processingIds (dualItems 0 t uuid url (filter isImage incoming)) = {}"
    by (rule processingIds_none) (auto dest: dualItems_status)
  then show ?thesis by (simp add: addDualFilesToQueue_def processingIds_append)
qed

lemma processingIds_writeback:
  "processingIds (processFileBackground cfg translate stopAt fileItem prev)
     \<subseteq> processingIds prev"
  by (rule processFileBackground_cases [of cfg translate stopAt fileItem prev])
     (auto simp: processingIds_mem)

lemma processingIds_mark:
  "processingIds (markProcessing i prev) \<subseteq> insert i (processingIds prev)"
  by (auto simp: processingIds_mem markProcessing_def split: if_splits)

text \<open>No event but a dispatch puts an id in process.\<close>

lemma step_processingIds:
  assumes "e = LoopIteration \<longrightarrow> workers (step e s) = workers s"
  shows "processingIds (files (step e s)) \<subseteq> processingIds (files s)"
proof (cases e)
  case (AddFiles t uuid url incoming)
  then show ?thesis by (simp add: processingIds_addFiles)
next
  case (AddDualFiles t uuid url incoming)
  then show ?thesis by (simp add: processingIds_addDual)
next
  case (Remove i)
  then show ?thesis by (simp add: handleRemove_def processingIds_filter)
next
  case (SavePrompt i p)
  then show ?thesis
    by (auto simp: handleSavePrompt_def intro!: processingIds_map split: if_splits)
next
  case Start
  then show ?thesis
    by (auto simp: startProcessing_def intro!: processingIds_map split: if_splits)
next
  case (Regenerate now i)
  then show ?thesis
    by (auto simp: handleRegenerate_def regenerated_def intro!: processingIds_map
             split: if_splits)
next
  case (UseResultAsInput t uuid url item)
  then show ?thesis
    by (auto simp: handleUseResultAsInput_def Let_def processingIds_append processingIds_mem
             split: option.splits)
next
  case ClearAll
  then show ?thesis by (auto simp: clearAll_def processingIds_mem)
next
  case InvokeProcessQueue
  then show ?thesis by (simp add: processQueueEnter_def split: list.splits)
next
  case LoopIteration
  show ?thesis
  proof (cases "runningLoops s = 0")
    case False
    with LoopIteration assms show ?thesis
      by (cases s rule: processQueueIteration_cases) auto
  next
    case True
    with LoopIteration show ?thesis by simp
  qed
next
  case (WorkerSettles k translate stopAt)
  then show ?thesis by (simp add: workerSettles_def Let_def processingIds_writeback)
qed (simp_all add: stopProcessing_def)

subsection \<open>Ids stay distinct\<close>

lemma addFiles_ids:
  "map id' (addFilesToQueue t uuid url incoming prev) =
     map id' prev @ map uuid [0..<length (filter isImage incoming)]"
proof -
  have "map id' (map (\<lambda>(i, f). newItem (uuid i) f (url i) None None t) (enumerate 0 xs)) =
          map uuid [0..<length xs]" for xs :: "js_file list"
  proof -
    have "map id' (map (\<lambda>(i, f). newItem (uuid i) f (url i) None None t) (enumerate 0 xs)) =
            map uuid (map fst (zip [0..<length xs] xs))"
      by (simp only: map_map enumerate_eq_zip) (simp add: split_def o_def)
    also have "\<dots> = map uuid [0..<length xs]" by simp
    finally show ?thesis .
  qed
  then show ?thesis by (simp add: addFilesToQueue_def)
qed

lemma dualItems_ids:
  "map id' (dualItems n t uuid url xs) = map uuid [n..<n + (length xs + 1) div 2]"
proof (induction n t uuid url xs rule: dualItems.induct)
  case (3 n t uuid url primary secondary rest)
  have "[n..<n + (length (primary # secondary # rest) + 1) div 2] =
          n # [Suc n..<Suc n + (length rest + 1) div 2]"
    by (simp add: upt_rec [of n])
  with 3 show ?case by simp
qed (simp_all add: upt_rec)

lemma addDual_ids:
  "map id' (addDualFilesToQueue t uuid url incoming prev) =
     map id' prev @ map uuid [0..<(length (filter isImage incoming) + 1) div 2]"
  by (simp add: addDualFilesToQueue_def dualItems_ids)

lemma freshIds_distinct:
  assumes "freshIds uuid n (fs @ gs)" "distinct (map id' fs)"
  shows "distinct (map id' fs @ map uuid [0..<n])"
proof -
  have fresh: "uuid i \<notin> set (map id' fs)" if "i < n" for i
    using that assms(1) by (simp add: freshIds_def list_all_iff)
  have "set (map id' fs) \<inter> set (map uuid [0..<n]) = {}"
  proof (rule ccontr)
    assume "set (map id' fs) \<inter> set (map uuid [0..<n]) \<noteq> {}"
    then obtain x where x: "x \<in> set (map id' fs)" "x \<in> set (map uuid [0..<n])" by blast
    then obtain i where "i < n" "x = uuid i" by auto
    with fresh [of i] x(1) show False by simp
  qed
  with assms show ?thesis by (simp add: freshIds_def)
qed

lemma step_distinct:
  assumes "admissible e s" "distinct (map id' (files s))"
  shows "distinct (map id' (files (step e s)))"
proof (cases e)
  case (AddFiles t uuid url incoming)
  with assms have "distinct (map id' (files s) @ map uuid [0..<length (filter isImage incoming)])"
    by (intro freshIds_distinct [where gs = "filesRef s"]) simp_all
  with AddFiles show ?thesis by (simp add: addFiles_ids)
next
  case (AddDualFiles t uuid url incoming)
  with assms have "distinct (map id' (files s)
                     @ map uuid [0..<(length (filter isImage incoming) + 1) div 2])"
    by (intro freshIds_distinct [where gs = "filesRef s"]) simp_all
  with AddDualFiles show ?thesis by (simp add: addDual_ids)
next
  case (Remove i)
  with assms show ?thesis by (simp add: handleRemove_def distinct_map_filter)
next
  case (SavePrompt i p)
  with assms show ?thesis by (simp add: handleSavePrompt_def o_def if_distrib cong: if_cong)
next
  case Start
  with assms show ?thesis by (simp add: startProcessing_def o_def if_distrib cong: if_cong)
next
  case (Regenerate now i)
  with assms show ?thesis
    by (simp add: handleRegenerate_def regenerated_def o_def if_distrib cong: if_cong)
next
  case (UseResultAsInput t uuid url item)
  with assms show ?thesis
    by (auto simp: handleUseResultAsInput_def Let_def split: option.splits)
next
  case ClearAll
  with assms show ?thesis by (simp add: clearAll_def)
next
  case InvokeProcessQueue
  with assms show ?thesis by (simp add: processQueueEnter_def split: list.splits)
next
  case LoopIteration
  with assms show ?thesis by (simp add: processQueueIteration_ids)
next
  case (WorkerSettles k translate stopAt)
  with assms schedulerEvent_ids [of e s] show ?thesis by simp
qed (use assms in \<open>simp_all add: stopProcessing_def\<close>)

subsection \<open>At most one record in process without concurrency\<close>

lemma filesRef_step: "e \<noteq> Render \<Longrightarrow> filesRef (step e s) = filesRef s"
proof (cases e)
  case LoopIteration
  then show ?thesis by (cases s rule: processQueueIteration_cases) auto
qed (simp_all add: startProcessing_def handleRegenerate_def handleUseResultAsInput_def Let_def
       stopProcessing_def clearAll_def processQueueEnter_def workerSettles_def
       split: option.splits list.splits)

lemma headPendingIs_unique:
  "headPendingIs fs i \<Longrightarrow> headPendingIs fs j \<Longrightarrow> i = j"
  by (auto simp: headPendingIs_def split: list.splits)

lemma schedulerInv_step:
  assumes inv: "schedulerInv s" and single: "\<not> enableConcurrency (refs s)"
    and adm: "admissible e s"
  shows "schedulerInv (step e s)"
proof -
  from inv have dist: "distinct (map id' (files s))"
    and one: "\<forall>i \<in> processingIds (files s). \<forall>j \<in> processingIds (files s). i = j"
    and seen: "\<forall>i \<in> processingIds (files s).
                 processingFiles (filesRef s) \<noteq> [] \<or> headPendingIs (filesRef s) i"
    by (simp_all add: schedulerInv_iff)
  have dist': "distinct (map id' (files (step e s)))"
    using adm dist by (rule step_distinct)
  consider (render) "e = Render"
    | (dispatch) "e = LoopIteration" "workers (step e s) \<noteq> workers s"
    | (other) "e \<noteq> Render" "e = LoopIteration \<longrightarrow> workers (step e s) = workers s"
    by (cases "e = LoopIteration") auto
  then show ?thesis
  proof cases
    case render
    with dist one show ?thesis
      by (auto simp: schedulerInv_iff processingIds_empty_iff [symmetric])
  next
    case dispatch
    from dispatch have running: "runningLoops s \<noteq> 0"
      and grew: "workers (processQueueIteration s) \<noteq> workers s"
      by (auto split: if_splits)
    from grew obtain p rest where
      head: "pendingFiles (filesRef s) = p # rest"
      and room: "int (length (processingFiles (filesRef s))) < MAX_CONCURRENCY (refs s)"
      and after: "processQueueIteration s =
         s\<lparr>files := markProcessing (id' p) (files s),
           workers := workers s @ [\<lparr>wFileItem = p, wSettings = refs s\<rparr>]\<rparr>"
      by (cases s rule: processQueueIteration_cases) auto
    from room single have idle: "processingFiles (filesRef s) = []"
      by (simp add: MAX_CONCURRENCY_def)
    have isHead: "headPendingIs (filesRef s) (id' p)"
      using head by (simp add: headPendingIs_def)
    have old: "i = id' p" if "i \<in> processingIds (files s)" for i
      using seen that idle isHead by (auto dest: headPendingIs_unique)
    have new: "i = id' p" if "i \<in> processingIds (files (step e s))" for i
      using that dispatch(1) running after processingIds_mark [of "id' p" "files s"] old
      by auto
    from dispatch(1) running after have ref: "filesRef (step e s) = filesRef s" by simp
    from dist' new isHead ref show ?thesis
      by (auto simp: schedulerInv_iff)
  next
    case other
    have sub: "processingIds (files (step e s)) \<subseteq> processingIds (files s)"
      using other(2) by (rule step_processingIds)
    from other(1) have ref: "filesRef (step e s) = filesRef s" by (rule filesRef_step)
    from dist' sub one seen ref show ?thesis
      unfolding schedulerInv_iff by (metis subsetD)
  qed
qed

lemma schedulerInv_run:
  "schedulerInv s \<Longrightarrow> admissibleRun es s \<Longrightarrow>
   throughout (\<lambda>s. \<not> enableConcurrency (refs s)) es s \<Longrightarrow> schedulerInv (run es s)"
proof (induction es arbitrary: s)
  case Nil
  then show ?case by simp
next
  case (Cons e es)
  from Cons.prems have "schedulerInv (step e s)" by (intro schedulerInv_step) simp_all
  with Cons show ?case by simp
qed

lemma length_filter_le_filter:
  "(\<And>x. x \<in> set xs \<Longrightarrow> P x \<Longrightarrow> Q x) \<Longrightarrow> length (filter P xs) \<le> length (filter Q xs)"
  by (induction xs) auto

lemma distinct_key_at_most_one:
  "distinct (map h xs) \<Longrightarrow> length (filter (\<lambda>x. h x = i) xs) \<le> Suc 0"
proof (induction xs)
  case Nil
  then show ?case by simp
next
  case (Cons a xs)
  show ?case
  proof (cases "h a = i")
    case True
    from Cons.prems have "h a \<notin> set (map h xs)" by simp
    then have "\<forall>x \<in> set xs. h x \<noteq> h a" by (metis image_eqI set_map)
    with True have "filter (\<lambda>x. h x = i) xs = []"
      by (simp add: filter_empty_conv)
    with True show ?thesis by simp
  next
    case False
    with Cons show ?thesis by simp
  qed
qed

lemma schedulerInv_at_most_one:
  assumes "schedulerInv s"
  shows "length (processingFiles (files s)) \<le> 1"
proof (cases "processingFiles (files s)")
  case Nil
  then show ?thesis by simp
next
  case (Cons f fs)
  then have "f \<in> set (processingFiles (files s))" by simp
  then have f: "f \<in> set (files s)" "status f = PROCESSING"
    by (simp_all add: processingFiles_def)
  then have fid: "id' f \<in> processingIds (files s)" by (auto simp: processingIds_mem)
  have "id' g = id' f" if "g \<in> set (files s)" "status g = PROCESSING" for g
  proof -
    from that have "id' g \<in> processingIds (files s)" by (auto simp: processingIds_mem)
    with fid assms show ?thesis by (simp add: schedulerInv_iff)
  qed
  then have "length (processingFiles (files s))
               \<le> length (filter (\<lambda>g. id' g = id' f) (files s))"
    unfolding processingFiles_def by (intro length_filter_le_filter) simp
  also have "\<dots> \<le> Suc 0"
    using assms by (intro distinct_key_at_most_one) (simp add: schedulerInv_iff)
  finally show ?thesis by simp
qed

lemma maxConcurrency_step:
  "1 \<le> maxConcurrency (refs s) \<Longrightarrow> 1 \<le> maxConcurrency (refs (step e s))"
proof (cases e)
  case LoopIteration
  assume "1 \<le> maxConcurrency (refs s)"
  with LoopIteration show ?thesis by (cases s rule: processQueueIteration_cases) auto
qed (simp_all add: startProcessing_def handleRegenerate_def handleUseResultAsInput_def Let_def
       stopProcessing_def clearAll_def processQueueEnter_def workerSettles_def
       parsedConcurrency_def split: option.splits list.splits)

lemma maxConcurrency_run:
  "1 \<le> maxConcurrency (refs s) \<Longrightarrow> 1 \<le> maxConcurrency (refs (run es s))"
  by (induction es arbitrary: s) (simp_all add: maxConcurrency_step)

subsection \<open>Stop\<close>

lemma stopped_step:
  "abortController s \<Longrightarrow> processingIds (files (step e s)) \<subseteq> processingIds (files s)"
proof (rule step_processingIds, rule impI)
  assume "abortController s" "e = LoopIteration"
  then show "workers (step e s) = workers s"
    by (simp add: processQueueIteration_def)
qed

lemma stopped_run:
  "throughout abortController es s \<Longrightarrow>
   processingIds (files (run es s)) \<subseteq> processingIds (files s)"
proof (induction es arbitrary: s)
  case Nil
  then show ?case by simp
next
  case (Cons e es)
  then have "processingIds (files (run es (step e s))) \<subseteq> processingIds (files (step e s))"
    by simp
  moreover from Cons.prems have "processingIds (files (step e s)) \<subseteq> processingIds (files s)"
    by (intro stopped_step) simp
  ultimately show ?case by simp
qed

lemma stopProcessing_flag_only: "step Stop s = s\<lparr>abortController := True\<rparr>"
  by (simp add: stopProcessing_def)

lemma flag_stays:
  "abortController s \<Longrightarrow> e \<noteq> InvokeProcessQueue \<Longrightarrow> abortController (step e s)"
proof (cases e)
  case LoopIteration
  assume "abortController s"
  with LoopIteration show ?thesis by (simp add: processQueueIteration_def)
qed (simp_all add: startProcessing_def handleRegenerate_def handleUseResultAsInput_def Let_def
       stopProcessing_def clearAll_def workerSettles_def split: option.splits)

text \<open>
  The stop flag is cleared by one event only: a queued call of \<open>processQueue\<close> whose
  closure has captured \<open>isProcessing = false\<close>.
\<close>

lemma flag_cleared_iff:
  assumes "abortController s"
  shows "\<not> abortController (step e s) \<longleftrightarrow>
           e = InvokeProcessQueue \<and> (\<exists>rest. queuedStarts s = False # rest)"
proof (cases "e = InvokeProcessQueue")
  case True
  with assms show ?thesis by (auto simp: processQueueEnter_def split: list.splits)
next
  case False
  with assms flag_stays [of s e] show ?thesis by simp
qed

lemma settle_terminal:
  assumes "k < length (workers s)"
    and "f \<in> set (files (step (WorkerSettles k translate stopAt) s))"
    and "id' f = id' (wFileItem (workers s ! k))"
  shows "status f = COMPLETED \<or> status f = FAILED"
  using assms
  by (simp add: workerSettles_def Let_def)
     (rule processFileBackground_cases
        [of "wSettings (workers s ! k)" translate stopAt "wFileItem (workers s ! k)" "files s"],
      auto)

subsection \<open>Completed records carry a result\<close>

lemma completedOk_map:
  "(\<And>f. f \<in> set fs \<Longrightarrow> completedOk f \<Longrightarrow> completedOk (g f)) \<Longrightarrow>
   list_all completedOk fs \<Longrightarrow> list_all completedOk (map g fs)"
  by (simp add: list_all_iff)










section \<open>Evaluating the examples\<close>

lemmas evaluation =
  initialState_def sequentialState_def exampleSettings_def exampleItem_def dollarItem_def
  threeQueued_def twoQueued_def sequentialTrace_def completedTrace_def inFlightTrace_def
  raceTrace_def missingKeyTrace_def stoppedTrace_def afterStop_def examplePng_def exampleBlob_def
  exampleUuid_def exampleUrl_def
  alwaysSucceeds_def alwaysFails_def failsTwice_def neverStopped_def
  addFilesToQueue_def isImage_def newItem_def freshIds_def enumerate_eq_zip
  handleRemove_def handleSavePrompt_def startProcessing_def handleRegenerate_def
  regenerated_def handleUseResultAsInput_def stopProcessing_def clearAll_def
  processQueueEnter_def processQueueIteration_def pendingFiles_def processingFiles_def
  MAX_CONCURRENCY_def markProcessing_def workerSettles_def processFileBackground_def
  processSingleFile_def finalPrompt_def templatedPrompt_def js_replace_def
  filesToProcess_def attemptLoop.simps thrownAfterLoop_def errorText_def Let_def

lemma threeQueued_state:
  "filesRef (run threeQueued initialState) =
     [(newItem ''task-x'' (examplePng ''a.png'') ''blob:u'' None None 5)\<lparr>status := PENDING\<rparr>,
      (newItem ''task-xx'' (examplePng ''b.png'') ''blob:u'' None None 1)\<lparr>status := PENDING\<rparr>,
      (newItem ''task-xxx'' (examplePng ''c.png'') ''blob:u'' None None 9)\<lparr>status := PENDING\<rparr>]"
  "files (run threeQueued initialState) = filesRef (run threeQueued initialState)"
  "workers (run threeQueued initialState) = []"
  "\<not> abortController (run threeQueued initialState)"
  "isProcessing (run threeQueued initialState)"
  "refs (run threeQueued initialState) = exampleSettings"
  by (simp_all add: evaluation)

section \<open>Properties of the queue\<close>

text \<open>
  C1. Whenever a pass of the loop dispatches, it starts one worker, for a record of the
  snapshot \<open>filesRef\<close> that is \<open>PENDING\<close> and whose \<open>lastActivityTimestamp\<close> is the
  largest among the \<open>PENDING\<close> records of the snapshot, and it marks the records with the
  id of that record as \<open>PROCESSING\<close>. When the \<open>PENDING\<close> records of the snapshot carry
  the timestamps 5, 1 and 9 in any order, the loop is not stopped and the ceiling is not
  reached, the record dispatched is the one with timestamp 9.
\<close>

theorem dispatch_most_recent:
  "(workers (processQueueIteration s) \<noteq> workers s \<longrightarrow>
      (\<exists>fileToProcess.
          workers (processQueueIteration s) =
            workers s @ [\<lparr>wFileItem = fileToProcess, wSettings = refs s\<rparr>]
        \<and> files (processQueueIteration s) = markProcessing (id' fileToProcess) (files s)
        \<and> fileToProcess \<in> set (filesRef s)
        \<and> status fileToProcess = PENDING
        \<and> (\<forall>g \<in> set (filesRef s). status g = PENDING \<longrightarrow>
              lastActivityTimestamp g \<le> lastActivityTimestamp fileToProcess)))
   \<and> (\<not> abortController s
        \<and> int (length (processingFiles (filesRef s))) < MAX_CONCURRENCY (refs s)
        \<and> mset (map lastActivityTimestamp (filter (\<lambda>f. status f = PENDING) (filesRef s)))
            = mset [5, 1, 9] \<longrightarrow>
      (\<exists>fileToProcess.
          workers (processQueueIteration s) =
            workers s @ [\<lparr>wFileItem = fileToProcess, wSettings = refs s\<rparr>]
        \<and> files (processQueueIteration s) = markProcessing (id' fileToProcess) (files s)
        \<and> status fileToProcess = PENDING
        \<and> lastActivityTimestamp fileToProcess = 9))"
proof (intro conjI impI)
  assume grew: "workers (processQueueIteration s) \<noteq> workers s"
  show "\<exists>fileToProcess.
          workers (processQueueIteration s) =
            workers s @ [\<lparr>wFileItem = fileToProcess, wSettings = refs s\<rparr>]
        \<and> files (processQueueIteration s) = markProcessing (id' fileToProcess) (files s)
        \<and> fileToProcess \<in> set (filesRef s)
        \<and> status fileToProcess = PENDING
        \<and> (\<forall>g \<in> set (filesRef s). status g = PENDING \<longrightarrow>
              lastActivityTimestamp g \<le> lastActivityTimestamp fileToProcess)"
  proof (cases s rule: processQueueIteration_cases)
    case (dispatch p rest)
    with pendingFiles_head [OF dispatch(2)] show ?thesis by (intro exI [of _ p]) simp
  qed (use grew in simp_all)
next
  assume pre: "\<not> abortController s
        \<and> int (length (processingFiles (filesRef s))) < MAX_CONCURRENCY (refs s)
        \<and> mset (map lastActivityTimestamp (filter (\<lambda>f. status f = PENDING) (filesRef s)))
            = mset [5, 1, 9]"
  let ?pend = "filter (\<lambda>f. status f = PENDING) (filesRef s)"
  from pre have same: "mset (map lastActivityTimestamp ?pend) = mset [5, 1, 9]" by simp
  from mset_eq_setD [OF same] have stamps: "set (map lastActivityTimestamp ?pend) = {5, 1, 9}"
    by simp
  from mset_eq_length [OF same] have "?pend \<noteq> []" by auto
  then have "pendingFiles (filesRef s) \<noteq> []"
    using length_js_sort [of byRecency ?pend] by (auto simp: pendingFiles_def)
  then obtain p rest where head: "pendingFiles (filesRef s) = p # rest"
    by (cases "pendingFiles (filesRef s)") auto
  note h = pendingFiles_head [OF head]
  have "9 \<in> set (map lastActivityTimestamp ?pend)" using stamps by simp
  then obtain g where g: "g \<in> set (filesRef s)" "status g = PENDING"
    "lastActivityTimestamp g = 9" by auto
  from h(1,2) have "lastActivityTimestamp p \<in> set (map lastActivityTimestamp ?pend)" by simp
  with stamps have "lastActivityTimestamp p \<in> {5, 1, 9}" by simp
  moreover from h(3) g have "9 \<le> lastActivityTimestamp p" by auto
  ultimately have nine: "lastActivityTimestamp p = 9" by auto
  from pre head have "processQueueIteration s =
         s\<lparr>files := markProcessing (id' p) (files s),
           workers := workers s @ [\<lparr>wFileItem = p, wSettings = refs s\<rparr>]\<rparr>"
    by (simp add: processQueueIteration_def)
  with h(2) nine show "\<exists>fileToProcess.
          workers (processQueueIteration s) =
            workers s @ [\<lparr>wFileItem = fileToProcess, wSettings = refs s\<rparr>]
        \<and> files (processQueueIteration s) = markProcessing (id' fileToProcess) (files s)
        \<and> status fileToProcess = PENDING
        \<and> lastActivityTimestamp fileToProcess = 9"
    by (intro exI [of _ p]) simp
qed

theorem dispatch_most_recent_witness:
  "\<not> abortController (run threeQueued initialState)
   \<and> map lastActivityTimestamp (filter (\<lambda>f. status f = PENDING)
         (filesRef (run threeQueued initialState))) = [5, 1, 9]
   \<and> (\<exists>fileToProcess.
          workers (processQueueIteration (run threeQueued initialState)) =
            [\<lparr>wFileItem = fileToProcess, wSettings = exampleSettings\<rparr>]
        \<and> status fileToProcess = PENDING
        \<and> lastActivityTimestamp fileToProcess = 9)
   \<and> map status (files (processQueueIteration (run threeQueued initialState)))
        = [PENDING, PENDING, PROCESSING]"
proof -
  let ?s = "run threeQueued initialState"
  have pre: "\<not> abortController ?s
        \<and> int (length (processingFiles (filesRef ?s))) < MAX_CONCURRENCY (refs ?s)
        \<and> mset (map lastActivityTimestamp (filter (\<lambda>f. status f = PENDING) (filesRef ?s)))
            = mset [5, 1, 9]"
    by (simp add: threeQueued_state)
       (simp add: processingFiles_def MAX_CONCURRENCY_def evaluation)
  with dispatch_most_recent [of ?s] have
    "\<exists>fileToProcess.
          workers (processQueueIteration ?s) =
            workers ?s @ [\<lparr>wFileItem = fileToProcess, wSettings = refs ?s\<rparr>]
        \<and> files (processQueueIteration ?s) = markProcessing (id' fileToProcess) (files ?s)
        \<and> status fileToProcess = PENDING
        \<and> lastActivityTimestamp fileToProcess = 9"
    by blast
  moreover have "map status (files (processQueueIteration ?s)) = [PENDING, PENDING, PROCESSING]"
    by (simp add: evaluation)
  moreover have "map lastActivityTimestamp (filter (\<lambda>f. status f = PENDING) (filesRef ?s))
                   = [5, 1, 9]"
    by (simp add: threeQueued_state) (simp add: newItem_def)
  ultimately show ?thesis using pre by (auto simp: threeQueued_state(3,6))
qed

text \<open>
  C2. In a run that starts with an empty list and in which \<open>enableConcurrency\<close> is off in
  every state, at most one record of \<open>files\<close> has the status \<open>PROCESSING\<close> in the state
  reached, whatever the events were. A pass of the loop dispatches only when the number of
  \<open>PROCESSING\<close> records in its snapshot is below the ceiling; the ceiling is 1 when
  concurrency is off, the setting \<open>maxConcurrency\<close> otherwise, and it stays at least 1.
\<close>

theorem concurrency_ceiling:
  "(files s0 = [] \<and> filesRef s0 = [] \<and> admissibleRun es s0
      \<and> throughout (\<lambda>s. \<not> enableConcurrency (refs s)) es s0 \<longrightarrow>
        length (processingFiles (files (run es s0))) \<le> 1)
   \<and> (workers (processQueueIteration s) \<noteq> workers s \<longrightarrow>
        int (length (processingFiles (filesRef s))) < MAX_CONCURRENCY (refs s))
   \<and> (\<not> enableConcurrency (refs s) \<longrightarrow> MAX_CONCURRENCY (refs s) = 1)
   \<and> (enableConcurrency (refs s) \<longrightarrow> MAX_CONCURRENCY (refs s) = maxConcurrency (refs s))
   \<and> (1 \<le> maxConcurrency (refs s0) \<longrightarrow> 1 \<le> MAX_CONCURRENCY (refs (run es s0)))"
proof (intro conjI impI)
  assume a: "files s0 = [] \<and> filesRef s0 = [] \<and> admissibleRun es s0
      \<and> throughout (\<lambda>s. \<not> enableConcurrency (refs s)) es s0"
  then have "schedulerInv s0"
    by (simp add: schedulerInv_def processingFiles_def)
  with a have "schedulerInv (run es s0)" by (intro schedulerInv_run) simp_all
  then show "length (processingFiles (files (run es s0))) \<le> 1"
    by (rule schedulerInv_at_most_one)
next
  assume "workers (processQueueIteration s) \<noteq> workers s"
  then show "int (length (processingFiles (filesRef s))) < MAX_CONCURRENCY (refs s)"
    by (cases s rule: processQueueIteration_cases) auto
next
  assume "1 \<le> maxConcurrency (refs s0)"
  then have "1 \<le> maxConcurrency (refs (run es s0))" by (rule maxConcurrency_run)
  then show "1 \<le> MAX_CONCURRENCY (refs (run es s0))" by (simp add: MAX_CONCURRENCY_def)
qed (simp_all add: MAX_CONCURRENCY_def)

theorem concurrency_ceiling_witness:
  "files sequentialState = [] \<and> filesRef sequentialState = []
   \<and> admissibleRun sequentialTrace sequentialState
   \<and> throughout (\<lambda>s. \<not> enableConcurrency (refs s)) sequentialTrace sequentialState
   \<and> length (processingFiles (files (run sequentialTrace sequentialState))) \<le> 1
   \<and> map status (files (run sequentialTrace sequentialState)) = [PROCESSING, PENDING]"
proof -
  have pre: "files sequentialState = [] \<and> filesRef sequentialState = []
      \<and> admissibleRun sequentialTrace sequentialState
      \<and> throughout (\<lambda>s. \<not> enableConcurrency (refs s)) sequentialTrace sequentialState"
    by (simp add: evaluation)
  with concurrency_ceiling [of sequentialState sequentialTrace] have
    "length (processingFiles (files (run sequentialTrace sequentialState))) \<le> 1"
    by blast
  moreover have "map status (files (run sequentialTrace sequentialState))
                   = [PROCESSING, PENDING]"
    by (simp add: evaluation)
  ultimately show ?thesis using pre by blast
qed

text \<open>
  C3. A worker that has a credential and never sees the stop flag, with a Transform
  Service whose first two attempts fail and whose third attempt succeeds: with
  \<open>autoRetry\<close> on, it returns the completed item after exactly 3 attempts and the
  write-back replaces the record by it; with \<open>autoRetry\<close> off, it throws the first error
  after exactly 1 attempt and the write-back sets the record to \<open>FAILED\<close> with the message
  of that error.
\<close>

theorem retry_budget:
  assumes key: "apiKey cfg = Some k" "k \<noteq> []"
    and nostop: "\<forall>n. \<not> stopAt n"
    and svc: "translate (filesToProcess fileItem) (finalPrompt (customPromptTemplate cfg) fileItem)
                (temperature cfg) k 1 = Inl e1"
             "translate (filesToProcess fileItem) (finalPrompt (customPromptTemplate cfg) fileItem)
                (temperature cfg) k 2 = Inl e2"
             "translate (filesToProcess fileItem) (finalPrompt (customPromptTemplate cfg) fileItem)
                (temperature cfg) k 3 = Inr (url, blob)"
  shows "processSingleFile (cfg\<lparr>autoRetry := True\<rparr>) translate stopAt fileItem =
           (Inr (fileItem\<lparr>status := COMPLETED, resultUrl := Some url,
                           resultBlob := Some blob, error := None\<rparr>), 3)
         \<and> processFileBackground (cfg\<lparr>autoRetry := True\<rparr>) translate stopAt fileItem prev =
             map (\<lambda>f. if id' f = id' fileItem
                       then fileItem\<lparr>status := COMPLETED, resultUrl := Some url,
                                      resultBlob := Some blob, error := None\<rparr>
                       else f) prev
         \<and> processSingleFile (cfg\<lparr>autoRetry := False\<rparr>) translate stopAt fileItem = (Inl e1, 1)
         \<and> processFileBackground (cfg\<lparr>autoRetry := False\<rparr>) translate stopAt fileItem prev =
             map (\<lambda>f. if id' f = id' fileItem
                       then f\<lparr>status := FAILED, error := Some (errorText e1)\<rparr>
                       else f) prev"
proof -
  let ?call = "translate (filesToProcess fileItem) (finalPrompt (customPromptTemplate cfg) fileItem)
                (temperature cfg) k"
  have on: "processSingleFile (cfg\<lparr>autoRetry := True\<rparr>) translate stopAt fileItem =
              attemptLoop ?call stopAt fileItem 3 0 None"
    using key by (simp add: processSingleFile_def)
  have off: "processSingleFile (cfg\<lparr>autoRetry := False\<rparr>) translate stopAt fileItem =
              attemptLoop ?call stopAt fileItem 1 0 None"
    using key by (simp add: processSingleFile_def)
  have three: "attemptLoop ?call stopAt fileItem 3 0 None =
           (Inr (fileItem\<lparr>status := COMPLETED, resultUrl := Some url,
                           resultBlob := Some blob, error := None\<rparr>), 3)"
    using nostop svc by (intro attemptLoop_succeeds_third) auto
  have one: "attemptLoop ?call stopAt fileItem 1 0 None = (Inl e1, 1)"
    using nostop svc by (intro attemptLoop_single_failure) auto
  show ?thesis
    unfolding processFileBackground_def on off three one by simp
qed

theorem retry_budget_witness:
  "processSingleFile (exampleSettings\<lparr>autoRetry := True\<rparr>) failsTwice neverStopped exampleItem =
     (Inr (exampleItem\<lparr>status := COMPLETED,
                        resultUrl := Some ''data:image/png;base64,AAAA'',
                        resultBlob := Some exampleBlob, error := None\<rparr>), 3)
   \<and> processSingleFile (exampleSettings\<lparr>autoRetry := False\<rparr>) failsTwice neverStopped
         exampleItem = (Inl (Error ''503 overloaded''), 1)
   \<and> map status (processFileBackground (exampleSettings\<lparr>autoRetry := True\<rparr>) failsTwice
         neverStopped exampleItem [exampleItem]) = [COMPLETED]
   \<and> map status (processFileBackground (exampleSettings\<lparr>autoRetry := False\<rparr>) failsTwice
         neverStopped exampleItem [exampleItem]) = [FAILED]
   \<and> map error (processFileBackground (exampleSettings\<lparr>autoRetry := False\<rparr>) failsTwice
         neverStopped exampleItem [exampleItem]) = [Some ''503 overloaded'']"
  using retry_budget [where cfg = exampleSettings and k = "''key''" and stopAt = neverStopped
      and translate = failsTwice and fileItem = exampleItem
      and ?e1.0 = "Error ''503 overloaded''" and ?e2.0 = "Error ''503 overloaded''"
      and url = "''data:image/png;base64,AAAA''" and blob = exampleBlob
      and prev = "[exampleItem]"]
  by (simp add: exampleSettings_def initialState_def failsTwice_def neverStopped_def
        errorText_def)

text \<open>
  C4. \<open>handleRegenerate\<close> rewrites the records with the given id where they stand,
  whatever their status: the id and the position stay, the status becomes \<open>PENDING\<close>,
  \<open>resultUrl\<close>, \<open>resultBlob\<close> and \<open>error\<close> are cleared, \<open>isRetry\<close> is set and
  \<open>lastActivityTimestamp\<close> becomes the current time; every other record is left as it
  is. The list of ids is the same after the call, and it is still the same after any
  later renders, entries and passes of the loop and settled workers, so neither the
  call nor the run that follows creates a record with a new id.
\<close>

theorem regenerate_in_place:
  "map id' (files (handleRegenerate now i s)) = map id' (files s)
   \<and> (\<forall>j < length (files s). id' (files s ! j) = i \<longrightarrow>
        id' (files (handleRegenerate now i s) ! j) = i
        \<and> status (files (handleRegenerate now i s) ! j) = PENDING
        \<and> resultUrl (files (handleRegenerate now i s) ! j) = None
        \<and> resultBlob (files (handleRegenerate now i s) ! j) = None
        \<and> error (files (handleRegenerate now i s) ! j) = None
        \<and> isRetry (files (handleRegenerate now i s) ! j) = Some True
        \<and> lastActivityTimestamp (files (handleRegenerate now i s) ! j) = now)
   \<and> (\<forall>j < length (files s). id' (files s ! j) \<noteq> i \<longrightarrow>
        files (handleRegenerate now i s) ! j = files s ! j)
   \<and> (\<forall>es. list_all schedulerEvent es \<longrightarrow>
        map id' (files (run es (handleRegenerate now i s))) = map id' (files s))"
proof -
  have ids: "map id' (files (handleRegenerate now i s)) = map id' (files s)"
    by (simp add: handleRegenerate_def regenerated_def)
  have hit: "\<forall>j < length (files s). id' (files s ! j) = i \<longrightarrow>
        id' (files (handleRegenerate now i s) ! j) = i
        \<and> status (files (handleRegenerate now i s) ! j) = PENDING
        \<and> resultUrl (files (handleRegenerate now i s) ! j) = None
        \<and> resultBlob (files (handleRegenerate now i s) ! j) = None
        \<and> error (files (handleRegenerate now i s) ! j) = None
        \<and> isRetry (files (handleRegenerate now i s) ! j) = Some True
        \<and> lastActivityTimestamp (files (handleRegenerate now i s) ! j) = now"
    by (simp add: handleRegenerate_def regenerated_def)
  have miss: "\<forall>j < length (files s). id' (files s ! j) \<noteq> i \<longrightarrow>
        files (handleRegenerate now i s) ! j = files s ! j"
    by (simp add: handleRegenerate_def)
  have later: "\<forall>es. list_all schedulerEvent es \<longrightarrow>
        map id' (files (run es (handleRegenerate now i s))) = map id' (files s)"
    using ids by (simp add: schedulerRun_ids)
  from ids hit miss later show ?thesis by blast
qed

theorem regenerate_in_place_witness:
  "map status (files (run completedTrace initialState)) = [COMPLETED]
   \<and> id' (files (handleRegenerate 7 ''task-x'' (run completedTrace initialState)) ! 0)
        = ''task-x''
   \<and> status (files (handleRegenerate 7 ''task-x'' (run completedTrace initialState)) ! 0)
        = PENDING
   \<and> resultBlob (files (handleRegenerate 7 ''task-x'' (run completedTrace initialState)) ! 0)
        = None
   \<and> error (files (handleRegenerate 7 ''task-x'' (run completedTrace initialState)) ! 0)
        = None
   \<and> isRetry (files (handleRegenerate 7 ''task-x'' (run completedTrace initialState)) ! 0)
        = Some True
   \<and> lastActivityTimestamp
        (files (handleRegenerate 7 ''task-x'' (run completedTrace initialState)) ! 0) = 7
   \<and> map id' (files (run [Render, InvokeProcessQueue, LoopIteration,
                            WorkerSettles 0 alwaysSucceeds neverStopped]
                   (handleRegenerate 7 ''task-x'' (run completedTrace initialState))))
        = [''task-x'']
   \<and> map status (files (run [Render, InvokeProcessQueue, LoopIteration,
                               WorkerSettles 0 alwaysSucceeds neverStopped]
                   (handleRegenerate 7 ''task-x'' (run completedTrace initialState))))
        = [COMPLETED]"
proof -
  let ?s = "run completedTrace initialState"
  let ?es = "[Render, InvokeProcessQueue, LoopIteration,
              WorkerSettles 0 alwaysSucceeds neverStopped]"
  have before: "map status (files ?s) = [COMPLETED]" "map id' (files ?s) = [''task-x'']"
    by (simp_all add: evaluation)
  then have here: "0 < length (files ?s)" "id' (files ?s ! 0) = ''task-x''"
    by (auto simp: map_eq_Cons_conv)
  have events: "list_all schedulerEvent ?es" by simp
  have after: "map status (files (run ?es (handleRegenerate 7 ''task-x'' ?s))) = [COMPLETED]"
    by (simp add: evaluation)
  note fact = regenerate_in_place [of 7 "''task-x''" ?s]
  from fact here have hit:
    "id' (files (handleRegenerate 7 ''task-x'' ?s) ! 0) = ''task-x''"
    "status (files (handleRegenerate 7 ''task-x'' ?s) ! 0) = PENDING"
    "resultBlob (files (handleRegenerate 7 ''task-x'' ?s) ! 0) = None"
    "error (files (handleRegenerate 7 ''task-x'' ?s) ! 0) = None"
    "isRetry (files (handleRegenerate 7 ''task-x'' ?s) ! 0) = Some True"
    "lastActivityTimestamp (files (handleRegenerate 7 ''task-x'' ?s) ! 0) = 7"
    by blast+
  from fact events have
    "map id' (files (run ?es (handleRegenerate 7 ''task-x'' ?s))) = map id' (files ?s)"
    by blast
  with before(2) have ids:
    "map id' (files (run ?es (handleRegenerate 7 ''task-x'' ?s))) = [''task-x'']"
    by (simp only:)
  from before(1) hit ids after show ?thesis by blast
qed

text \<open>
  C5 does not hold of the code. \<open>processQueue\<close> tests the \<open>isProcessing\<close> of the render
  that queued it, not the current one. In the run \<open>stoppedTrace\<close>, which the browser
  admits, Stop is pressed while one record is in process, one is waiting and a queued
  call of \<open>processQueue\<close> that has captured \<open>isProcessing = false\<close> has not fired yet.
  No handler of the user interface runs after that Stop. The queued call fires, clears
  the stop flag and enters \<open>while (true)\<close> although a loop is running; the next pass
  dispatches the waiting record, so that two loops and two workers are under way with
  the stop flag cleared.
\<close>

theorem stale_start_undoes_stop:
  "admissibleRun (stoppedTrace @ afterStop) initialState
   \<and> list_all schedulerEvent afterStop
   \<and> renderedIsProcessing (run stoppedTrace initialState)
   \<and> abortController (run stoppedTrace initialState)
   \<and> queuedStarts (run stoppedTrace initialState) = [False]
   \<and> runningLoops (run stoppedTrace initialState) = 1
   \<and> map (\<lambda>f. (id' f, status f)) (files (run stoppedTrace initialState))
        = [(''task-x'', PENDING), (''task-xx'', PROCESSING)]
   \<and> \<not> abortController (run afterStop (run stoppedTrace initialState))
   \<and> isProcessing (run afterStop (run stoppedTrace initialState))
   \<and> runningLoops (run afterStop (run stoppedTrace initialState)) = 2
   \<and> map (\<lambda>f. (id' f, status f)) (files (run afterStop (run stoppedTrace initialState)))
        = [(''task-x'', PROCESSING), (''task-xx'', PROCESSING)]
   \<and> map (\<lambda>w. id' (wFileItem w)) (workers (run afterStop (run stoppedTrace initialState)))
        = [''task-xx'', ''task-x'']"
  by (simp add: evaluation)

theorem stale_start_undoes_stop_witness:
  "abortController (run stoppedTrace initialState)
   \<and> map status (files (run stoppedTrace initialState)) = [PENDING, PROCESSING]
   \<and> map status (files (run afterStop (run stoppedTrace initialState)))
        = [PROCESSING, PROCESSING]"
proof -
  from stale_start_undoes_stop
  have flag: "abortController (run stoppedTrace initialState)"
    and before: "map (\<lambda>f. (id' f, status f)) (files (run stoppedTrace initialState))
        = [(''task-x'', PENDING), (''task-xx'', PROCESSING)]"
    and after: "map (\<lambda>f. (id' f, status f))
         (files (run afterStop (run stoppedTrace initialState)))
        = [(''task-x'', PROCESSING), (''task-xx'', PROCESSING)]"
    by blast+
  from before have "map status (files (run stoppedTrace initialState)) = [PENDING, PROCESSING]"
    by (auto simp: map_eq_Cons_conv)
  moreover from after
  have "map status (files (run afterStop (run stoppedTrace initialState)))
          = [PROCESSING, PROCESSING]"
    by (auto simp: map_eq_Cons_conv)
  ultimately show ?thesis using flag by blast
qed

text \<open>
  C6 does not hold of the code. The write-back of a failed worker assigns only \<open>status\<close>
  and \<open>error\<close>. In the run \<open>raceTrace\<close>, which the browser admits, a record is
  regenerated while its worker is in flight and is dispatched a second time; the first
  worker succeeds and the second one fails, and the record ends \<open>FAILED\<close> with an error
  and with the result of the first worker.
\<close>

theorem failed_record_keeps_result:
  "admissibleRun raceTrace initialState
   \<and> map (\<lambda>f. (id' f, status f, resultUrl f, resultBlob f, error f))
         (files (run raceTrace initialState))
       = [(''task-x'', FAILED, Some ''data:image/png;base64,AAAA'', Some exampleBlob,
           Some ''503 overloaded'')]"
  by (simp add: evaluation)

theorem failed_record_keeps_result_witness:
  "\<not> list_all (\<lambda>f. status f \<noteq> FAILED \<or> (resultUrl f = None \<and> resultBlob f = None))
        (files (run raceTrace initialState))"
proof -
  from failed_record_keeps_result
  have "map (\<lambda>f. (status f, resultUrl f)) (files (run raceTrace initialState))
          = [(FAILED, Some ''data:image/png;base64,AAAA'')]"
    by (auto simp: map_eq_Cons_conv)
  then show ?thesis by (auto simp: map_eq_Cons_conv)
qed




text \<open>
  C8. \<open>handleRemove\<close> while a worker for the removed id is in flight: afterwards no
  record of \<open>files\<close> has that id, the records with other ids are the same as before and
  in the same order, and the worker is still in flight. When that worker settles, with
  success or with failure, the write-back leaves \<open>files\<close> as it is; the same holds in any
  state in which no record has the id of the settling worker.
\<close>

theorem remove_then_stale_writeback:
  "i \<notin> set (map id' (files (step (Remove i) s)))
   \<and> workers (step (Remove i) s) = workers s
   \<and> filter (\<lambda>f. id' f \<noteq> i) (files (step (Remove i) s)) = filter (\<lambda>f. id' f \<noteq> i) (files s)
   \<and> (k < length (workers s) \<and> id' (wFileItem (workers s ! k)) = i \<longrightarrow>
        files (step (WorkerSettles k translate stopAt) (step (Remove i) s))
          = files (step (Remove i) s))
   \<and> (\<forall>s2. k < length (workers s2)
          \<and> id' (wFileItem (workers s2 ! k)) \<notin> set (map id' (files s2)) \<longrightarrow>
        files (step (WorkerSettles k translate stopAt) s2) = files s2)"
proof -
  have gone: "i \<notin> set (map id' (files (step (Remove i) s)))"
    by (auto simp: handleRemove_def)
  have same: "workers (step (Remove i) s) = workers s" by simp
  have others: "filter (\<lambda>f. id' f \<noteq> i) (files (step (Remove i) s))
                  = filter (\<lambda>f. id' f \<noteq> i) (files s)"
    by (simp add: handleRemove_def)
  have stale: "files (step (WorkerSettles k translate stopAt) s2) = files s2"
    if "k < length (workers s2)"
      "id' (wFileItem (workers s2 ! k)) \<notin> set (map id' (files s2))" for s2
    using that by (simp add: workerSettles_def Let_def processFileBackground_absent)
  have here: "files (step (WorkerSettles k translate stopAt) (step (Remove i) s))
          = files (step (Remove i) s)"
    if "k < length (workers s)" "id' (wFileItem (workers s ! k)) = i"
    using that gone same by (intro stale) simp_all
  from gone same others stale here show ?thesis by blast
qed

theorem remove_then_stale_writeback_witness:
  "map id' (files (run inFlightTrace initialState)) = [''task-x'', ''task-xx'']
   \<and> map (\<lambda>w. id' (wFileItem w)) (workers (run inFlightTrace initialState)) = [''task-x'']
   \<and> map id' (files (step (Remove ''task-x'') (run inFlightTrace initialState)))
        = [''task-xx'']
   \<and> files (step (WorkerSettles 0 alwaysSucceeds neverStopped)
         (step (Remove ''task-x'') (run inFlightTrace initialState)))
        = files (step (Remove ''task-x'') (run inFlightTrace initialState))
   \<and> files (step (WorkerSettles 0 alwaysFails neverStopped)
         (step (Remove ''task-x'') (run inFlightTrace initialState)))
        = files (step (Remove ''task-x'') (run inFlightTrace initialState))"
proof -
  let ?s = "run inFlightTrace initialState"
  have before: "map id' (files ?s) = [''task-x'', ''task-xx'']"
    "map (\<lambda>w. id' (wFileItem w)) (workers ?s) = [''task-x'']"
    by (simp_all add: evaluation)
  then have flying: "0 < length (workers ?s) \<and> id' (wFileItem (workers ?s ! 0)) = ''task-x''"
    by (auto simp: map_eq_Cons_conv)
  have after: "map id' (files (step (Remove ''task-x'') ?s)) = [''task-xx'']"
    using before(1) by (simp add: handleRemove_def filter_map o_def map_eq_Cons_conv) auto
  from flying
    remove_then_stale_writeback [of "''task-x''" ?s 0 alwaysSucceeds neverStopped]
    remove_then_stale_writeback [of "''task-x''" ?s 0 alwaysFails neverStopped]
    before after
  show ?thesis by blast
qed

text \<open>
  C9 as stated fails in its last part: the credential is tested once, before the retry
  loop. With \<open>autoRetry\<close> on, a worker without a credential makes no attempt at all, while
  a worker whose Transform Service keeps failing makes three.
\<close>

theorem missing_credential_not_retried:
  "processSingleFile ((refs initialState)\<lparr>autoRetry := True\<rparr>) alwaysFails neverStopped
       exampleItem = (Inl (Error ''API Key is missing''), 0)
   \<and> processSingleFile (exampleSettings\<lparr>autoRetry := True\<rparr>) alwaysFails neverStopped
       exampleItem = (Inl (Error ''503 overloaded''), 3)"
  by (simp add: evaluation)

text \<open>
  C9, amended. \<open>processFileBackground\<close> always yields an updater: whatever
  \<open>processSingleFile\<close> throws, every record with the id of the dispatched item gets the
  status \<open>FAILED\<close> and an error message that is not empty, and the list keeps its length.
  A missing credential (\<open>null\<close> or the empty string) is thrown before the retry loop:
  the worker makes no attempt and no retry, whatever \<open>autoRetry\<close>, the Transform Service
  and the stop flag are, and the record is set to \<open>FAILED\<close> with \<open>API Key is missing\<close> by
  the same write-back. With a credential, \<open>autoRetry\<close> on and no stop, a Transform Service
  that fails three times is tried three times and the third error is thrown.
  \<open>startProcessing\<close> queues a \<open>FAILED\<close> record again, whatever its error.
\<close>

theorem worker_failures_become_failed:
  "(\<forall>err. fst (processSingleFile cfg translate stopAt fileItem) = Inl err \<longrightarrow>
       processFileBackground cfg translate stopAt fileItem prev =
         map (\<lambda>f. if id' f = id' fileItem
                   then f\<lparr>status := FAILED, error := Some (errorText err)\<rparr> else f) prev
       \<and> errorText err \<noteq> [])
   \<and> length (processFileBackground cfg translate stopAt fileItem prev) = length prev
   \<and> (apiKey cfg = None \<or> apiKey cfg = Some [] \<longrightarrow>
        processSingleFile cfg translate stopAt fileItem = (Inl (Error ''API Key is missing''), 0)
        \<and> processFileBackground cfg translate stopAt fileItem prev =
            map (\<lambda>f. if id' f = id' fileItem
                      then f\<lparr>status := FAILED, error := Some ''API Key is missing''\<rparr>
                      else f) prev)
   \<and> (apiKey cfg = Some k \<and> k \<noteq> [] \<and> autoRetry cfg \<and> (\<forall>n. \<not> stopAt n)
        \<and> translate (filesToProcess fileItem)
              (finalPrompt (customPromptTemplate cfg) fileItem) (temperature cfg) k 1 = Inl e1
        \<and> translate (filesToProcess fileItem)
              (finalPrompt (customPromptTemplate cfg) fileItem) (temperature cfg) k 2 = Inl e2
        \<and> translate (filesToProcess fileItem)
              (finalPrompt (customPromptTemplate cfg) fileItem) (temperature cfg) k 3 = Inl e3
        \<longrightarrow> processSingleFile cfg translate stopAt fileItem = (Inl e3, 3))
   \<and> (filesRef s \<noteq> [] \<longrightarrow>
        (\<forall>j < length (files s). status (files s ! j) = FAILED \<longrightarrow>
           status (files (startProcessing s) ! j) = PENDING
           \<and> error (files (startProcessing s) ! j) = None))"
proof (intro conjI impI allI)
  fix err
  assume "fst (processSingleFile cfg translate stopAt fileItem) = Inl err"
  then show "processFileBackground cfg translate stopAt fileItem prev =
         map (\<lambda>f. if id' f = id' fileItem
                   then f\<lparr>status := FAILED, error := Some (errorText err)\<rparr> else f) prev"
    by (simp add: processFileBackground_def)
  show "errorText err \<noteq> []" by (simp add: errorText_def)
next
  have "length (map id' (processFileBackground cfg translate stopAt fileItem prev))
          = length (map id' prev)"
    by (simp only: processFileBackground_ids)
  then show "length (processFileBackground cfg translate stopAt fileItem prev) = length prev"
    by simp
next
  assume missing: "apiKey cfg = None \<or> apiKey cfg = Some []"
  then show none: "processSingleFile cfg translate stopAt fileItem
                    = (Inl (Error ''API Key is missing''), 0)"
    by (auto simp: processSingleFile_def)
  then show "processFileBackground cfg translate stopAt fileItem prev =
            map (\<lambda>f. if id' f = id' fileItem
                      then f\<lparr>status := FAILED, error := Some ''API Key is missing''\<rparr>
                      else f) prev"
    by (simp add: processFileBackground_def errorText_def)
next
  let ?call = "translate (filesToProcess fileItem)
                 (finalPrompt (customPromptTemplate cfg) fileItem) (temperature cfg) k"
  assume a: "apiKey cfg = Some k \<and> k \<noteq> [] \<and> autoRetry cfg \<and> (\<forall>n. \<not> stopAt n)
        \<and> ?call 1 = Inl e1 \<and> ?call 2 = Inl e2 \<and> ?call 3 = Inl e3"
  then have "processSingleFile cfg translate stopAt fileItem =
               attemptLoop ?call stopAt fileItem 3 0 None"
    by (simp add: processSingleFile_def)
  also from a have "\<dots> = (Inl e3, 3)"
    by (intro attemptLoop_three_failures) auto
  finally show "processSingleFile cfg translate stopAt fileItem = (Inl e3, 3)" .
next
  fix j
  assume "filesRef s \<noteq> []" "j < length (files s)" "status (files s ! j) = FAILED"
  then show "status (files (startProcessing s) ! j) = PENDING"
    and "error (files (startProcessing s) ! j) = None"
    by (simp_all add: startProcessing_def)
qed

theorem worker_failures_become_failed_witness:
  "apiKey (refs initialState) = None
   \<and> processSingleFile (refs initialState) alwaysSucceeds neverStopped exampleItem
        = (Inl (Error ''API Key is missing''), 0)
   \<and> processSingleFile ((refs initialState)\<lparr>autoRetry := True\<rparr>) alwaysSucceeds neverStopped
         exampleItem = (Inl (Error ''API Key is missing''), 0)
   \<and> map (\<lambda>f. (status f, error f))
         (processFileBackground (refs initialState) alwaysSucceeds neverStopped exampleItem
            [exampleItem\<lparr>status := PROCESSING\<rparr>])
        = [(FAILED, Some ''API Key is missing'')]
   \<and> map (\<lambda>f. (status f, error f)) (files (run missingKeyTrace initialState))
        = [(FAILED, Some ''API Key is missing'')]
   \<and> status (files (startProcessing (run missingKeyTrace initialState)) ! 0) = PENDING
   \<and> error (files (startProcessing (run missingKeyTrace initialState)) ! 0) = None"
proof -
  let ?s = "run missingKeyTrace initialState"
  let ?prev = "[exampleItem\<lparr>status := PROCESSING\<rparr>]"
  have reached: "map (\<lambda>f. (status f, error f)) (files ?s)
                   = [(FAILED, Some ''API Key is missing'')]"
    "filesRef ?s \<noteq> []"
    by (simp_all add: evaluation)
  then have failed: "0 < length (files ?s)" "status (files ?s ! 0) = FAILED"
    by (auto simp: map_eq_Cons_conv)
  have missing: "apiKey (refs initialState) = None"
    "apiKey ((refs initialState)\<lparr>autoRetry := True\<rparr>) = None"
    by (simp_all add: initialState_def)
  note off = worker_failures_become_failed
      [where cfg = "refs initialState" and translate = alwaysSucceeds
         and stopAt = neverStopped and fileItem = exampleItem and prev = ?prev and s = ?s]
  note on = worker_failures_become_failed
      [where cfg = "(refs initialState)\<lparr>autoRetry := True\<rparr>" and translate = alwaysSucceeds
         and stopAt = neverStopped and fileItem = exampleItem and prev = ?prev and s = ?s]
  from off missing(1) have thrown:
    "processSingleFile (refs initialState) alwaysSucceeds neverStopped exampleItem
       = (Inl (Error ''API Key is missing''), 0)"
    and written:
    "processFileBackground (refs initialState) alwaysSucceeds neverStopped exampleItem ?prev
       = map (\<lambda>f. if id' f = id' exampleItem
                   then f\<lparr>status := FAILED, error := Some ''API Key is missing''\<rparr>
                   else f) ?prev"
    by blast+
  from on missing(2) have thrownOn:
    "processSingleFile ((refs initialState)\<lparr>autoRetry := True\<rparr>) alwaysSucceeds neverStopped
       exampleItem = (Inl (Error ''API Key is missing''), 0)"
    by blast
  from off reached(2) failed have again:
    "status (files (startProcessing ?s) ! 0) = PENDING"
    "error (files (startProcessing ?s) ! 0) = None"
    by blast+
  from written have shown:
    "map (\<lambda>f. (status f, error f))
       (processFileBackground (refs initialState) alwaysSucceeds neverStopped exampleItem ?prev)
       = [(FAILED, Some ''API Key is missing'')]"
    by simp
  from missing(1) thrown thrownOn shown reached(1) again show ?thesis by blast
qed

text \<open>
  C10 does not hold of the code for a file name with a dollar sign. The stem of
  \<open>a$$b.png\<close> is \<open>a$$b\<close>, but \<open>String.prototype.replace\<close> reads \<open>$$\<close> in the replacement
  as one dollar sign, so the prompt built from the template \<open>Translate {filename}\<close> is
  \<open>Translate a$b\<close>. (\<open>finalPrompt_override\<close> and \<open>finalPrompt_template_plain\<close> above give
  the prompt for an override and for a stem without a dollar sign.)
\<close>

theorem prompt_dollar_expansion:
  "customPrompt dollarItem = None
   \<and> stripExtension (fileName (file dollarItem)) = ''a$$b''
   \<and> finalPrompt ''Translate {filename}'' dollarItem = ''Translate a$b''"
  by (simp add: dollarItem_def newItem_def examplePng_def finalPrompt_def templatedPrompt_def
        js_replace_def)

theorem prompt_dollar_expansion_witness:
  "finalPrompt ''Translate {filename}'' dollarItem
     \<noteq> ''Translate '' @ stripExtension (fileName (file dollarItem))"
  using prompt_dollar_expansion by simp

end
